theory Spec2Isabelle
  imports Main
begin

section \<open>The data model of yourdns-server\<close>

text \<open>
  The program keeps three PostgreSQL tables, created by \<^verbatim>\<open>init\<close> in \<^verbatim>\<open>index.js\<close>:
  \<^verbatim>\<open>records(id, name, type, ttl, value, timestamp)\<close>,
  \<^verbatim>\<open>proxy_rules(id, rule, addr)\<close> and
  \<^verbatim>\<open>certs(id, domain, key, cert, timestamp, until)\<close>.
  A table is the list of its rows, in the order a scan without \<^verbatim>\<open>ORDER BY\<close> returns
  them. The columns keep their names, prefixed by the table (\<open>r_\<close>, \<open>pr_\<close>, \<open>cp_\<close>)
  because \<open>id\<close>, \<open>timestamp\<close> and \<open>value\<close> are taken in Isabelle and shared between
  tables. \<^verbatim>\<open>value TEXT\<close> is the one nullable column. A text is the list of its bytes in
  UTF-8, the encoding node-postgres speaks and the database stores.
\<close>

record dns_record =
  r_id :: string
  r_name :: string
  r_type :: string
  r_ttl :: int
  r_value :: "string option"
  r_timestamp :: int

record proxy_rule =
  pr_id :: string
  pr_rule :: string
  pr_addr :: string

text \<open>
  The certificate node-forge builds in \<^verbatim>\<open>generateCert\<close>, with the fields the function
  sets. The ASN.1 and DER encodings and RSA itself are outside the model: a key is an
  opaque string, \<^verbatim>\<open>cert.sign(key, hash)\<close> records the key that signed, and the \<^verbatim>\<open>bytea\<close>
  columns \<^verbatim>\<open>key\<close> and \<^verbatim>\<open>cert\<close> hold the private key and the certificate themselves
  (encoding followed by decoding gives the value back, but for the milliseconds of the two
  dates, which DER does not keep).
\<close>

record keypair =
  privateKey :: string
  publicKey :: string

datatype extension =
    basicConstraints (cA: bool)
  | keyUsage (keyCertSign: bool) (digitalSignature: bool) (cRLSign: bool)
  | subjectAltName (altNames: "string list")

record certificate =
  cert_publicKey :: string
  serialNumber :: string
  notBefore :: int
  notAfter :: int
  subject :: string
  issuer :: string
  extensions :: "extension list"
  signedWith :: string

record cert_pair =
  cp_id :: string
  cp_domain :: string
  cp_key :: string
  cp_cert :: certificate
  cp_timestamp :: int
  cp_until :: int

record db =
  proxy_rules :: "proxy_rule list"
  records :: "dns_record list"
  certs :: "cert_pair list"

text \<open>
  Everything the JavaScript raises is a value of \<open>error\<close>: the \<^verbatim>\<open>TypeError\<close> of a
  property read on \<^verbatim>\<open>undefined\<close>, the \<^verbatim>\<open>SyntaxError\<close> of \<^verbatim>\<open>new RegExp\<close>, the errors the
  database raises for a statement (a primary key used twice, a \<^verbatim>\<open>LIKE\<close> pattern that ends
  in its escape character, a number outside the range of \<^verbatim>\<open>INTEGER\<close>, a text too long for
  its column), and the rejection of a DNS client. \<open>PreconditionError\<close> is the name the
  specification gives to the failure of a leaf issue without a root certificate; the
  program has no error classes of its own, and none of its functions raises this one.
\<close>

datatype error =
    TypeError
  | SyntaxError
  | UniqueViolation
  | InvalidEscapeSequence
  | NumericValueOutOfRange
  | StringDataRightTruncation
  | UpstreamError
  | PreconditionError

section \<open>What the program takes from its surroundings\<close>

text \<open>
  A JavaScript object is the list of its properties in insertion order; \<open>map_of\<close> reads
  a property, and a key the list does not have reads as \<^verbatim>\<open>undefined\<close> (\<open>None\<close>). A DNS
  packet of dns2 has its questions, of which the handler reads the name, and its answers.
\<close>

datatype jsval = JString string | JNumber int | JNull | JUndefined

type_synonym jsobj = "(string \<times> jsval) list"

record question =
  q_name :: string

record packet =
  questions :: "question list"
  answers :: "jsobj list"

text \<open>
  The libraries and the configuration are parameters, under their names in the source.
  \<^verbatim>\<open>new RegExp(source, flags)\<close> is JavaScript's: it either raises the \<^verbatim>\<open>SyntaxError\<close>
  (\<open>None\<close>) or gives the test \<^verbatim>\<open>domain.match(re)\<close> is truthy for.
  \<^verbatim>\<open>UDPClient({dns})\<close> of dns2, applied to a name, resolves to a packet or rejects.
  \<^verbatim>\<open>DEFAULT_SERVER\<close> is \<^verbatim>\<open>process.env.DEFAULT_SERVER\<close>; \<^verbatim>\<open>Packet.TYPE\<close>, \<^verbatim>\<open>Packet.CLASS.IN\<close> and
  \<^verbatim>\<open>Packet.createResponseFromRequest\<close> are dns2's.
  Two parameters are the database server's. \<^verbatim>\<open>LOWER\<close> is PostgreSQL's \<^verbatim>\<open>lower()\<close>, which
  follows the locale of the database. \<^verbatim>\<open>LIKE_raises\<close> says for a text and a pattern that
  ends in a lone backslash whether the matcher of \<^verbatim>\<open>LIKE\<close> raises on them (see below).
\<close>

type_synonym regexp = "string \<Rightarrow> string \<Rightarrow> (string \<Rightarrow> bool) option"

record runtime =
  RegExp :: regexp
  UDPClient :: "string \<Rightarrow> string \<Rightarrow> error + packet"
  DEFAULT_SERVER :: string
  Packet_TYPE :: "string \<Rightarrow> jsval"
  Packet_CLASS_IN :: jsval
  createResponseFromRequest :: "packet \<Rightarrow> packet"
  LOWER :: "string \<Rightarrow> string"
  LIKE_raises :: "string \<Rightarrow> string \<Rightarrow> bool"

text \<open>
  What the run supplies to a call that creates a row: \<^verbatim>\<open>randomUUID()\<close>,
  \<^verbatim>\<open>pki.rsa.generateKeyPair(2048)\<close> and the clock (\<^verbatim>\<open>Date.now()\<close>, \<^verbatim>\<open>new Date()\<close>).
\<close>

record fresh =
  randomUUID :: string
  generateKeyPair :: keypair
  now :: int

section \<open>The SQL the queries use\<close>

subsection \<open>\<^verbatim>\<open>replace\<close>, \<^verbatim>\<open>string_to_array\<close>, \<^verbatim>\<open>array_length\<close>\<close>

text \<open>\<^verbatim>\<open>replace(s, '*', '%')\<close>: both strings are one character long.\<close>

definition sql_replace :: "string \<Rightarrow> char \<Rightarrow> char \<Rightarrow> string" where
  "sql_replace s from to = map (\<lambda>c. if c = from then to else c) s"

text \<open>
  \<^verbatim>\<open>string_to_array(s, '.')\<close> cuts \<open>s\<close> at every delimiter, so a string with \<open>n\<close> dots has
  \<open>n + 1\<close> fields, some of them possibly empty; the empty string gives the empty array.
  \<^verbatim>\<open>array_length(a, 1)\<close> of an empty array is \<^verbatim>\<open>NULL\<close>.
\<close>

fun fields :: "char \<Rightarrow> string \<Rightarrow> string list" where
  "fields d [] = [[]]"
| "fields d (c # cs) =
     (if c = d then [] # fields d cs
      else (c # hd (fields d cs)) # tl (fields d cs))"

definition string_to_array :: "string \<Rightarrow> char \<Rightarrow> string list" where
  "string_to_array s d = (if s = [] then [] else fields d s)"

definition array_length :: "'a list \<Rightarrow> nat option" where
  "array_length a = (if a = [] then None else Some (length a))"

text \<open>
  \<open>a = b\<close> in a \<^verbatim>\<open>WHERE\<close> clause: a row passes only when the comparison is true, and a
  comparison with \<^verbatim>\<open>NULL\<close> never is.
\<close>

definition sql_eq :: "'a option \<Rightarrow> 'a option \<Rightarrow> bool" where
  "sql_eq a b = (a \<noteq> None \<and> a = b)"

subsection \<open>\<^verbatim>\<open>LIKE\<close>\<close>

text \<open>
  A \<^verbatim>\<open>LIKE\<close> pattern, read left to right: \<^verbatim>\<open>%\<close> stands for any run of characters, also
  the empty one, \<^verbatim>\<open>_\<close> for any one character, a backslash (the default escape character)
  makes the next byte stand for itself, and any other byte stands for itself. A pattern
  that ends in a lone backslash has no such reading.
\<close>

datatype like_token = AnyString | AnyChar | Literal char

fun like_tokens :: "string \<Rightarrow> like_token list option" where
  "like_tokens [] = Some []"
| "like_tokens (c # cs) =
     (if c = CHR 0x5C then
        (case cs of
           [] \<Rightarrow> None
         | e # rest \<Rightarrow> map_option ((#) (Literal e)) (like_tokens rest))
      else
        map_option
          ((#) (if c = CHR ''%'' then AnyString else if c = CHR ''_'' then AnyChar else Literal c))
          (like_tokens cs))"

text \<open>
  The matcher compares bytes and steps over the text by characters: \<^verbatim>\<open>NextChar\<close> (the macro
  of PostgreSQL's matcher for UTF-8) goes past one byte and the continuation bytes
  \<^verbatim>\<open>10xxxxxx\<close> that follow it. On ASCII text a character is a byte.
\<close>

definition is_ascii :: "char \<Rightarrow> bool" where
  "is_ascii c = ((of_char c :: nat) < 128)"

definition continuation :: "char \<Rightarrow> bool" where
  "continuation c = (128 \<le> (of_char c :: nat) \<and> (of_char c :: nat) < 192)"

definition NextChar :: "string \<Rightarrow> string" where
  "NextChar t = dropWhile continuation (tl t)"

function like_match :: "like_token list \<Rightarrow> string \<Rightarrow> bool" where
  "like_match [] s = (s = [])"
| "like_match (Literal c # p) [] = False"
| "like_match (Literal c # p) (x # s) = (c = x \<and> like_match p s)"
| "like_match (AnyChar # p) [] = False"
| "like_match (AnyChar # p) (x # s) = like_match p (NextChar (x # s))"
| "like_match (AnyString # p) [] = like_match p []"
| "like_match (AnyString # p) (x # s) =
     (like_match p (x # s) \<or> like_match (AnyString # p) (NextChar (x # s)))"
  by pat_completeness auto
termination
  by (relation "measure (\<lambda>(p, s). length p + length s)")
     (auto simp: NextChar_def less_Suc_eq_le intro: le_SucI length_dropWhile_le)

text \<open>
  \<^verbatim>\<open>s LIKE pattern\<close>. No text matches a pattern that ends in a lone backslash: PostgreSQL
  raises \<^verbatim>\<open>LIKE pattern must not end with escape character\<close> when its matcher gets as far
  as that backslash, and answers false when the text fails before. Which of the two
  happens is the matcher's own; it is the parameter \<^verbatim>\<open>LIKE_raises\<close>.
\<close>

definition sql_like :: "runtime \<Rightarrow> string \<Rightarrow> string \<Rightarrow> error + bool" where
  "sql_like rt s pattern =
     (case like_tokens pattern of
        Some ts \<Rightarrow> Inr (like_match ts s)
      | None \<Rightarrow> if LIKE_raises rt s pattern then Inl InvalidEscapeSequence else Inr False)"

subsection \<open>\<^verbatim>\<open>SELECT ... WHERE\<close>, \<^verbatim>\<open>ORDER BY\<close>\<close>

text \<open>
  A \<^verbatim>\<open>SELECT\<close> keeps the rows its \<^verbatim>\<open>WHERE\<close> clause is true for, and the statement fails
  when the clause raises on a row. \<^verbatim>\<open>ORDER BY timestamp ASC\<close> is a sort on the column (for
  rows with equal timestamps PostgreSQL promises no order; the sort here keeps them as
  they were).
\<close>

fun sql_select :: "('row \<Rightarrow> error + bool) \<Rightarrow> 'row list \<Rightarrow> error + 'row list" where
  "sql_select wh [] = Inr []"
| "sql_select wh (row # rows) =
     (case wh row of
        Inl err \<Rightarrow> Inl err
      | Inr keep \<Rightarrow>
          (case sql_select wh rows of
             Inl err \<Rightarrow> Inl err
           | Inr kept \<Rightarrow> Inr (if keep then row # kept else kept)))"

definition order_by :: "('row \<Rightarrow> int) \<Rightarrow> error + 'row list \<Rightarrow> error + 'row list" where
  "order_by col res = (case res of Inl err \<Rightarrow> Inl err | Inr rows \<Rightarrow> Inr (sort_key col rows))"

section \<open>Records\<close>

text \<open>
  A text stored in a column \<^verbatim>\<open>varchar(n)\<close>: one of more than \<open>n\<close> characters is refused,
  unless the characters in excess are all spaces, which are cut off.
\<close>

fun take_chars :: "nat \<Rightarrow> string \<Rightarrow> string" where
  "take_chars 0 s = []"
| "take_chars (Suc n) [] = []"
| "take_chars (Suc n) (x # s) =
     x # takeWhile continuation s @ take_chars n (dropWhile continuation s)"

definition varchar :: "nat \<Rightarrow> string \<Rightarrow> error + string" where
  "varchar n s =
     (let kept = take_chars n s in
      if list_all (\<lambda>c. c = CHR '' '') (drop (length kept) s) then Inr kept
      else Inl StringDataRightTruncation)"

text \<open>
  \<^verbatim>\<open>pushRecord\<close> inserts \<^verbatim>\<open>(randomUUID(), LOWER(name), type, ttl, value, Date.now())\<close> and
  returns the row. \<^verbatim>\<open>ttl\<close> is an \<^verbatim>\<open>INTEGER\<close> column (32 bits), \<^verbatim>\<open>type\<close> a \<^verbatim>\<open>varchar(20)\<close> and
  \<^verbatim>\<open>id\<close> the primary key, so the insert fails on a number out of range, on a type that is
  too long and on an id the table already has.
\<close>

definition pushRecord ::
  "runtime \<Rightarrow> fresh \<Rightarrow> db \<Rightarrow> string \<Rightarrow> string \<Rightarrow> int \<Rightarrow> string option \<Rightarrow>
     (error + dns_record) \<times> db" where
  "pushRecord rt fr st name type ttl val =
     (if ttl < - 2147483648 \<or> 2147483647 < ttl then (Inl NumericValueOutOfRange, st)
      else
        (case varchar 20 type of
           Inl err \<Rightarrow> (Inl err, st)
         | Inr stored \<Rightarrow>
             (let row = \<lparr>r_id = randomUUID fr, r_name = LOWER rt name, r_type = stored,
                         r_ttl = ttl, r_value = val, r_timestamp = now fr\<rparr>
              in if r_id row \<in> set (map r_id (records st)) then (Inl UniqueViolation, st)
                 else (Inr row, st\<lparr>records := records st @ [row]\<rparr>))))"

text \<open>
  \<^verbatim>\<open>getRecords\<close>:
  \<^verbatim>\<open>SELECT * FROM records WHERE LOWER($1) LIKE replace(name, '*', '%')
  AND array_length(string_to_array(name, '.'), 1) = array_length(string_to_array($1, '.'), 1)
  ORDER BY timestamp ASC\<close>. The server evaluates \<^verbatim>\<open>LIKE\<close>, the cheaper conjunct, first on
  every row, so an error of \<^verbatim>\<open>LIKE\<close> is raised whatever the second conjunct says.
\<close>

definition getRecords_where :: "runtime \<Rightarrow> string \<Rightarrow> dns_record \<Rightarrow> error + bool" where
  "getRecords_where rt name row =
     (case sql_like rt (LOWER rt name) (sql_replace (r_name row) (CHR ''*'') (CHR ''%'')) of
        Inl err \<Rightarrow> Inl err
      | Inr like \<Rightarrow>
          Inr (like \<and>
               sql_eq (array_length (string_to_array (r_name row) (CHR ''.'')))
                      (array_length (string_to_array name (CHR ''.'')))))"

definition getRecords :: "runtime \<Rightarrow> db \<Rightarrow> string \<Rightarrow> error + dns_record list" where
  "getRecords rt st name =
     order_by r_timestamp (sql_select (getRecords_where rt name) (records st))"

text \<open>
  Two ways to compare a stored name with a query name label by label, for the statements
  about \<^verbatim>\<open>getRecords\<close>. The first is the specification's: the names have the same number of
  labels, a label \<^verbatim>\<open>*\<close> of the stored name goes with any label, and every other label
  equals the query's label up to case. The second compares one label with one label
  where \<^verbatim>\<open>*\<close>, anywhere in the stored label, stands for any run of characters of the
  query's label and every other character for itself.
\<close>

definition labels_agree_spec :: "runtime \<Rightarrow> string \<Rightarrow> string \<Rightarrow> bool" where
  "labels_agree_spec rt stored name =
     list_all2 (\<lambda>p q. p = ''*'' \<or> LOWER rt p = LOWER rt q)
       (string_to_array stored (CHR ''.'')) (string_to_array name (CHR ''.''))"

fun label_matches :: "string \<Rightarrow> string \<Rightarrow> bool" where
  "label_matches [] q = (q = [])"
| "label_matches (c # p) [] = (c = CHR ''*'' \<and> label_matches p [])"
| "label_matches (c # p) (x # q) =
     (if c = CHR ''*'' then label_matches p (x # q) \<or> label_matches (c # p) q
      else c = x \<and> label_matches p q)"

text \<open>
  What \<^verbatim>\<open>lower()\<close> does to ASCII text in every locale but the Turkic ones, and to every
  text in the locale \<^verbatim>\<open>C\<close>: the letters \<^verbatim>\<open>A\<close> to \<^verbatim>\<open>Z\<close> become \<^verbatim>\<open>a\<close> to \<^verbatim>\<open>z\<close>, and every other
  byte stays.
\<close>

definition lower_char :: "char \<Rightarrow> char" where
  "lower_char c =
     (case map_of (zip ''ABCDEFGHIJKLMNOPQRSTUVWXYZ'' ''abcdefghijklmnopqrstuvwxyz'') c of
        None \<Rightarrow> c
      | Some l \<Rightarrow> l)"

definition lower_ascii :: "string \<Rightarrow> string" where
  "lower_ascii s = map lower_char s"



text \<open>
  For the proofs about \<^verbatim>\<open>getRecords\<close>: the token a character of a stored name becomes in
  the pattern when the name has no \<^verbatim>\<open>%\<close>, \<^verbatim>\<open>_\<close> or backslash of its own (\<^verbatim>\<open>*\<close> was replaced
  by \<^verbatim>\<open>%\<close>), and the matcher with every step one byte long, which is what \<open>like_match\<close>
  does on ASCII text.
\<close>

definition star_token :: "char \<Rightarrow> like_token" where
  "star_token c = (if c = CHR ''*'' then AnyString else Literal c)"

fun match_bytes :: "like_token list \<Rightarrow> string \<Rightarrow> bool" where
  "match_bytes [] s = (s = [])"
| "match_bytes (Literal c # p) [] = False"
| "match_bytes (Literal c # p) (x # s) = (c = x \<and> match_bytes p s)"
| "match_bytes (AnyChar # p) [] = False"
| "match_bytes (AnyChar # p) (x # s) = match_bytes p s"
| "match_bytes (AnyString # p) [] = match_bytes p []"
| "match_bytes (AnyString # p) (x # s) = (match_bytes p (x # s) \<or> match_bytes (AnyString # p) s)"

section \<open>Proxy rules\<close>

text \<open>
  \<^verbatim>\<open>getAllProxyRules\<close> is \<^verbatim>\<open>SELECT * FROM proxy_rules\<close>. \<^verbatim>\<open>getProxyDNS\<close> walks the rows:
  \<^verbatim>\<open>for(const rule of rules) if(domain.match(new RegExp(rule.rule, "i"))) return rule.addr;\<close>
  and returns \<^verbatim>\<open>null\<close> after the loop. Nothing in \<^verbatim>\<open>getProxyDNS\<close>, and nothing in the
  handler that calls it, catches the error of the constructor.
\<close>

definition getAllProxyRules :: "db \<Rightarrow> proxy_rule list" where
  "getAllProxyRules st = proxy_rules st"

fun scan_rules :: "runtime \<Rightarrow> proxy_rule list \<Rightarrow> string \<Rightarrow> error + string option" where
  "scan_rules rt [] domain = Inr None"
| "scan_rules rt (rule # rules) domain =
     (case RegExp rt (pr_rule rule) ''i'' of
        None \<Rightarrow> Inl SyntaxError
      | Some re \<Rightarrow> if re domain then Inr (Some (pr_addr rule)) else scan_rules rt rules domain)"

definition getProxyDNS :: "runtime \<Rightarrow> db \<Rightarrow> string \<Rightarrow> error + string option" where
  "getProxyDNS rt st domain = scan_rules rt (getAllProxyRules st) domain"

text \<open>
  What a rule does on a domain, for the statements below: it matches when its pattern
  compiles and the compiled expression accepts the domain.
\<close>

definition compiles :: "runtime \<Rightarrow> proxy_rule \<Rightarrow> bool" where
  "compiles rt rule = (RegExp rt (pr_rule rule) ''i'' \<noteq> None)"

definition rule_matches :: "runtime \<Rightarrow> string \<Rightarrow> proxy_rule \<Rightarrow> bool" where
  "rule_matches rt domain rule =
     (case RegExp rt (pr_rule rule) ''i'' of None \<Rightarrow> False | Some re \<Rightarrow> re domain)"

text \<open>
  The lookup as section 4.2 of the specification words it: the address of the first rule
  whose pattern matches, a pattern that raises counting as no match, else none.
\<close>

definition findUpstream_spec :: "runtime \<Rightarrow> db \<Rightarrow> string \<Rightarrow> string option" where
  "findUpstream_spec rt st domain =
     map_option pr_addr (find (rule_matches rt domain) (proxy_rules st))"

section \<open>Certificates\<close>

definition VALID_MS :: int where
  "VALID_MS = 365 * 24 * 3600 * 1000"

definition VALID_MS_CA :: int where
  "VALID_MS_CA = 25 * VALID_MS"

definition CA_NAME :: string where
  "CA_NAME = ''yourdns''"

text \<open>
  \<^verbatim>\<open>getCert\<close> is the first row of \<^verbatim>\<open>SELECT * FROM certs WHERE domain = $1\<close>, or
  \<^verbatim>\<open>undefined\<close>; \<^verbatim>\<open>deleteCert\<close> and \<^verbatim>\<open>removeCertByID\<close> are the two \<^verbatim>\<open>DELETE\<close> statements.
\<close>

definition getCert :: "db \<Rightarrow> string \<Rightarrow> cert_pair option" where
  "getCert st domain = find (\<lambda>row. cp_domain row = domain) (certs st)"

definition deleteCert :: "db \<Rightarrow> string \<Rightarrow> db" where
  "deleteCert st domain = st\<lparr>certs := filter (\<lambda>row. cp_domain row \<noteq> domain) (certs st)\<rparr>"

definition removeCertByID :: "db \<Rightarrow> string \<Rightarrow> db" where
  "removeCertByID st uuid = st\<lparr>certs := filter (\<lambda>row. cp_id row \<noteq> uuid) (certs st)\<rparr>"

text \<open>\<^verbatim>\<open>s.replaceAll(x, y)\<close> for a one-character \<open>x\<close>.\<close>

definition replaceAll :: "string \<Rightarrow> char \<Rightarrow> string \<Rightarrow> string" where
  "replaceAll s x y = concat (map (\<lambda>c. if c = x then y else [c]) s)"

text \<open>
  \<^verbatim>\<open>generateCert(domain, ca = false)\<close>, step by step as in the source: read the old pair of
  \<open>domain\<close>; take an id, a key pair and the time; fill the certificate; in CA mode sign
  it with its own key, otherwise read the pair of \<^verbatim>\<open>"."\<close> and sign with its key, where
  \<^verbatim>\<open>caCert.key\<close> raises a \<^verbatim>\<open>TypeError\<close> when there is no such pair; then delete the old pair
  by its id and insert the new row, under \<^verbatim>\<open>"."\<close> in CA mode and under \<open>domain\<close>
  otherwise. The result is what the call returns or raises, with the tables as the call
  leaves them (the delete and the insert are two statements; \<^verbatim>\<open>id\<close> is the primary key
  of \<^verbatim>\<open>certs\<close>).
\<close>

definition generateCert :: "fresh \<Rightarrow> db \<Rightarrow> string \<Rightarrow> bool \<Rightarrow> (error + cert_pair) \<times> db" where
  "generateCert fr st domain ca =
     (let old = getCert st domain;
          uuid = randomUUID fr;
          keys = generateKeyPair fr;
          until = now fr + (if ca then VALID_MS_CA else VALID_MS);
          cert = \<lparr>cert_publicKey = publicKey keys,
                  serialNumber = replaceAll uuid (CHR ''-'') [],
                  notBefore = now fr, notAfter = until,
                  subject = [], issuer = [], extensions = [], signedWith = []\<rparr>;
          signed =
            (if ca then
               Inr (cert\<lparr>subject := CA_NAME, issuer := CA_NAME,
                         extensions := [basicConstraints True, keyUsage True True True],
                         signedWith := privateKey keys\<rparr>)
             else
               (case getCert st ''.'' of
                  None \<Rightarrow> Inl TypeError
                | Some caCert \<Rightarrow>
                    Inr (cert\<lparr>subject := domain, issuer := CA_NAME,
                              extensions := [subjectAltName [domain]],
                              signedWith := cp_key caCert\<rparr>)))
      in case signed of
           Inl err \<Rightarrow> (Inl err, st)
         | Inr c \<Rightarrow>
             (let st1 = (case old of None \<Rightarrow> st | Some row \<Rightarrow> removeCertByID st (cp_id row));
                  pair = \<lparr>cp_id = uuid, cp_domain = (if ca then ''.'' else domain),
                          cp_key = privateKey keys, cp_cert = c,
                          cp_timestamp = now fr, cp_until = until\<rparr>
              in if uuid \<in> set (map cp_id (certs st1)) then (Inl UniqueViolation, st1)
                 else (Inr pair, st1\<lparr>certs := certs st1 @ [pair]\<rparr>)))"

text \<open>
  \<^verbatim>\<open>init\<close>: the three \<^verbatim>\<open>CREATE TABLE IF NOT EXISTS\<close> leave existing tables as they are, then
  \<^verbatim>\<open>if(!(await getCert("."))) await generateCert(".", true);\<close>
\<close>

definition init :: "fresh \<Rightarrow> db \<Rightarrow> (error + unit) \<times> db" where
  "init fr st =
     (case getCert st ''.'' of
        Some root \<Rightarrow> (Inr (), st)
      | None \<Rightarrow>
          (case generateCert fr st ''.'' True of
             (Inl err, st') \<Rightarrow> (Inl err, st')
           | (Inr pair, st') \<Rightarrow> (Inr (), st')))"

text \<open>The rows of \<^verbatim>\<open>certs\<close> stored under a domain.\<close>

definition pairs_of :: "db \<Rightarrow> string \<Rightarrow> cert_pair list" where
  "pairs_of st domain = filter (\<lambda>row. cp_domain row = domain) (certs st)"

text \<open>
  The tables after the delete step of \<^verbatim>\<open>generateCert(domain, ...)\<close>:
  \<^verbatim>\<open>const old = await getCert(domain); ... if(old) await removeCertByID(old.id);\<close>
\<close>

definition removed_old :: "db \<Rightarrow> string \<Rightarrow> db" where
  "removed_old st domain =
     (case getCert st domain of None \<Rightarrow> st | Some row \<Rightarrow> removeCertByID st (cp_id row))"

text \<open>
  The shape every certificate table has that the functions above built from an empty one,
  one call after the other: the ids are distinct (\<^verbatim>\<open>id\<close> is the primary key), and a domain
  other than \<^verbatim>\<open>"."\<close> has at most one pair.
\<close>

definition single_leaf :: "db \<Rightarrow> bool" where
  "single_leaf st =
     (distinct (map cp_id (certs st)) \<and>
      list_all (\<lambda>row. cp_domain row = ''.'' \<or> length (pairs_of st (cp_domain row)) \<le> 1) (certs st))"

section \<open>The DNS handler\<close>

text \<open>
  \<^verbatim>\<open>Object.assign(target, source)\<close> writes the properties of the source into the target:
  over the old value where the target has the key, at the end where it has not.
\<close>

fun set_property :: "jsobj \<Rightarrow> string \<times> jsval \<Rightarrow> jsobj" where
  "set_property [] kv = [kv]"
| "set_property ((k, v) # obj) kv =
     (if k = fst kv then (k, snd kv) # obj else (k, v) # set_property obj kv)"

definition Object_assign :: "jsobj \<Rightarrow> jsobj \<Rightarrow> jsobj" where
  "Object_assign target source = foldl set_property target source"

definition js_text :: "string option \<Rightarrow> jsval" where
  "js_text v = (case v of None \<Rightarrow> JNull | Some s \<Rightarrow> JString s)"

text \<open>The object the handler pushes for one record.\<close>

definition local_answer :: "runtime \<Rightarrow> dns_record \<Rightarrow> jsobj" where
  "local_answer rt row =
     Object_assign
       [(''mame'', JString (r_name row)),
        (''type'', Packet_TYPE rt (r_type row)),
        (''class'', Packet_CLASS_IN rt),
        (''ttl'', JNumber (r_ttl row))]
       (if r_type row = ''CNAME'' then [(''domain'', js_text (r_value row))]
        else if r_type row = ''TXT'' then [(''data'', js_text (r_value row))]
        else [(''address'', js_text (r_value row))])"

text \<open>
  \<^verbatim>\<open>handle(req, send, _rinfo)\<close>. The result is the packet given to \<^verbatim>\<open>send\<close>, or the error the
  handler raises before it sends; it takes the name of the first question
  (\<^verbatim>\<open>const [ question ] = req.questions; const { name } = question;\<close> raises on a request
  without questions) and changes no table.
\<close>

definition handle :: "runtime \<Rightarrow> db \<Rightarrow> packet \<Rightarrow> error + packet" where
  "handle rt st req =
     (let res = createResponseFromRequest rt req in
      case questions req of
        [] \<Rightarrow> Inl TypeError
      | question # _ \<Rightarrow>
          (let name = q_name question in
           case getProxyDNS rt st name of
             Inl err \<Rightarrow> Inl err
           | Inr (Some toAsk) \<Rightarrow>
               (case UDPClient rt toAsk name of
                  Inl err \<Rightarrow> Inl err
                | Inr reply \<Rightarrow> Inr (res\<lparr>answers := answers reply\<rparr>))
           | Inr None \<Rightarrow>
               (case getRecords rt st name of
                  Inl err \<Rightarrow> Inl err
                | Inr rows \<Rightarrow>
                    if length rows > 0 then
                      Inr (res\<lparr>answers := answers res @ map (local_answer rt) rows\<rparr>)
                    else
                      (case UDPClient rt (DEFAULT_SERVER rt) name of
                         Inl err \<Rightarrow> Inl err
                       | Inr reply \<Rightarrow> Inr (res\<lparr>answers := answers reply\<rparr>)))))"

section \<open>Sample surroundings and tables for the examples\<close>

text \<open>
  A sample engine. It agrees with JavaScript on the two sources the examples give it:
  \<^verbatim>\<open>new RegExp("(", "i")\<close> raises a \<^verbatim>\<open>SyntaxError\<close> (an unterminated group), and \<^verbatim>\<open>.*\<close>
  matches every string. Every other source is given an expression that matches nothing.
\<close>

definition RegExp_sample :: regexp where
  "RegExp_sample source flags =
     (if source = ''('' then None else Some (\<lambda>domain. source = ''.*''))"

text \<open>
  Sample surroundings: a DNS client whose reply names the server that was asked, the four
  record types of dns2's \<^verbatim>\<open>Packet.TYPE\<close> the program stores, class \<^verbatim>\<open>IN\<close>, a response
  that starts with the request's questions and no answers, and a database in the locale
  \<^verbatim>\<open>C\<close>. No sample table has a name that ends in a backslash, so the sample matcher is
  never asked whether it raises.
\<close>

definition rt_sample :: runtime where
  "rt_sample =
     \<lparr>RegExp = RegExp_sample,
      UDPClient = (\<lambda>dns name. Inr \<lparr>questions = [], answers = [[(''from'', JString dns)]]\<rparr>),
      DEFAULT_SERVER = ''1.1.1.1'',
      Packet_TYPE = (\<lambda>t. if t = ''A'' then JNumber 1 else if t = ''CNAME'' then JNumber 5
                          else if t = ''TXT'' then JNumber 16 else if t = ''AAAA'' then JNumber 28
                          else JUndefined),
      Packet_CLASS_IN = JNumber 1,
      createResponseFromRequest = (\<lambda>req. \<lparr>questions = questions req, answers = []\<rparr>),
      LOWER = lower_ascii,
      LIKE_raises = (\<lambda>text pattern. False)\<rparr>"

definition rule_bad :: proxy_rule where
  "rule_bad = \<lparr>pr_id = ''1'', pr_rule = ''('', pr_addr = ''1.1.1.1''\<rparr>"

definition rule_all :: proxy_rule where
  "rule_all = \<lparr>pr_id = ''2'', pr_rule = ''.*'', pr_addr = ''9.9.9.9''\<rparr>"

definition rule_off :: proxy_rule where
  "rule_off = \<lparr>pr_id = ''3'', pr_rule = ''^off$'', pr_addr = ''8.8.8.8''\<rparr>"

definition db_rules :: "proxy_rule list \<Rightarrow> db" where
  "db_rules rules = \<lparr>proxy_rules = rules, records = [], certs = []\<rparr>"

text \<open>The two records of the scenarios in section 8 of the specification.\<close>

definition rec_a :: dns_record where
  "rec_a = \<lparr>r_id = ''r1'', r_name = ''a.example.com'', r_type = ''A'', r_ttl = 60,
            r_value = Some ''10.0.0.1'', r_timestamp = 1000\<rparr>"

definition rec_star :: dns_record where
  "rec_star = \<lparr>r_id = ''r2'', r_name = ''*.example.com'', r_type = ''CNAME'', r_ttl = 300,
               r_value = Some ''target.example.net'', r_timestamp = 500\<rparr>"

text \<open>A record whose first label has a \<^verbatim>\<open>*\<close> inside, and one with an underscore.\<close>

definition rec_glob :: dns_record where
  "rec_glob = \<lparr>r_id = ''r4'', r_name = ''a*.com'', r_type = ''A'', r_ttl = 60,
               r_value = Some ''10.0.0.2'', r_timestamp = 2000\<rparr>"

definition rec_dmarc :: dns_record where
  "rec_dmarc = \<lparr>r_id = ''r5'', r_name = ''_dmarc.example.com'', r_type = ''TXT'', r_ttl = 60,
                r_value = Some ''v=DMARC1'', r_timestamp = 3000\<rparr>"

definition db_sample :: "proxy_rule list \<Rightarrow> dns_record list \<Rightarrow> db" where
  "db_sample rules rows = \<lparr>proxy_rules = rules, records = rows, certs = []\<rparr>"

definition query :: "string \<Rightarrow> packet" where
  "query name = \<lparr>questions = [\<lparr>q_name = name\<rparr>], answers = []\<rparr>"

text \<open>
  Three runs of the generators, and tables for the certificate examples: empty ones, the
  ones \<^verbatim>\<open>init\<close> leaves, and those with bob's ownership record for \<^verbatim>\<open>example.com\<close>.
\<close>

definition fresh0 :: fresh where
  "fresh0 = \<lparr>randomUUID = ''0000-a0'', generateKeyPair = \<lparr>privateKey = ''k0'', publicKey = ''K0''\<rparr>,
             now = 1000\<rparr>"

definition fresh1 :: fresh where
  "fresh1 = \<lparr>randomUUID = ''0000-a1'', generateKeyPair = \<lparr>privateKey = ''k1'', publicKey = ''K1''\<rparr>,
             now = 2000\<rparr>"


definition db_empty :: db where
  "db_empty = \<lparr>proxy_rules = [], records = [], certs = []\<rparr>"

definition db_root :: db where
  "db_root = snd (init fresh0 db_empty)"



section \<open>The upstream lookup\<close>

lemma scan_rules_match:
  "\<forall>p\<in>set pre. compiles rt p \<and> \<not> rule_matches rt domain p \<Longrightarrow>
   rule_matches rt domain rule \<Longrightarrow>
   scan_rules rt (pre @ rule # post) domain = Inr (Some (pr_addr rule))"
  by (induction pre) (auto simp: compiles_def rule_matches_def split: option.splits)

lemma scan_rules_none:
  "\<forall>p\<in>set rules. compiles rt p \<and> \<not> rule_matches rt domain p \<Longrightarrow>
   scan_rules rt rules domain = Inr None"
  by (induction rules) (auto simp: compiles_def rule_matches_def split: option.splits)

lemma scan_rules_raise:
  "\<forall>p\<in>set pre. compiles rt p \<and> \<not> rule_matches rt domain p \<Longrightarrow>
   \<not> compiles rt rule \<Longrightarrow>
   scan_rules rt (pre @ rule # post) domain = Inl SyntaxError"
  by (induction pre) (auto simp: compiles_def rule_matches_def split: option.splits)

text \<open>
  Claim C4, as amended. \<^verbatim>\<open>getProxyDNS\<close> scans the rules in retrieval order, compiling each
  with the flag \<^verbatim>\<open>i\<close>. It returns the address of the first rule that matches when every rule
  before it compiles and does not match (the rules after it are not looked at); it returns
  none when every rule compiles and none matches; and when the scan reaches a rule whose
  pattern does not compile before any rule has matched, the \<^verbatim>\<open>SyntaxError\<close> leaves
  \<^verbatim>\<open>getProxyDNS\<close>: the rule is not skipped. The three cases cover every table.
\<close>

theorem getProxyDNS_first_match_or_raise:
  "(proxy_rules st = pre @ rule # post \<and>
    (\<forall>p\<in>set pre. compiles rt p \<and> \<not> rule_matches rt domain p) \<and>
    rule_matches rt domain rule
      \<longrightarrow> getProxyDNS rt st domain = Inr (Some (pr_addr rule))) \<and>
   ((\<forall>p\<in>set (proxy_rules st). compiles rt p \<and> \<not> rule_matches rt domain p)
      \<longrightarrow> getProxyDNS rt st domain = Inr None) \<and>
   (proxy_rules st = pre @ rule # post \<and>
    (\<forall>p\<in>set pre. compiles rt p \<and> \<not> rule_matches rt domain p) \<and>
    \<not> compiles rt rule
      \<longrightarrow> getProxyDNS rt st domain = Inl SyntaxError)"
  by (simp add: getProxyDNS_def getAllProxyRules_def scan_rules_match scan_rules_none
      scan_rules_raise)

text \<open>
  The claim as the specification states it fails: with a rule whose pattern is \<^verbatim>\<open>(\<close> stored
  before a rule that matches every name, the lookup the specification describes skips the
  first rule and answers \<^verbatim>\<open>9.9.9.9\<close>, and \<^verbatim>\<open>getProxyDNS\<close> raises.
\<close>

theorem getProxyDNS_unmatched_error_counterexample:
  "getProxyDNS rt_sample (db_rules [rule_bad, rule_all]) ''host.delegated.test''
     = Inl SyntaxError \<and>
   findUpstream_spec rt_sample (db_rules [rule_bad, rule_all]) ''host.delegated.test''
     = Some ''9.9.9.9''"
  by (simp add: getProxyDNS_def getAllProxyRules_def findUpstream_spec_def rule_matches_def
      RegExp_sample_def rt_sample_def rule_bad_def rule_all_def db_rules_def)

theorem getProxyDNS_first_match_or_raise_witness:
  "getProxyDNS rt_sample (db_rules [rule_off, rule_all, rule_bad]) ''a.test''
     = Inr (Some ''9.9.9.9'') \<and>
   getProxyDNS rt_sample (db_rules [rule_off]) ''a.test'' = Inr None \<and>
   getProxyDNS rt_sample (db_rules [rule_off, rule_bad, rule_all]) ''a.test''
     = Inl SyntaxError"
proof -
  have c: "compiles rt_sample rule_off" "\<not> rule_matches rt_sample ''a.test'' rule_off"
    "rule_matches rt_sample ''a.test'' rule_all" "\<not> compiles rt_sample rule_bad"
    by (simp_all add: compiles_def rule_matches_def RegExp_sample_def rt_sample_def
        rule_off_def rule_all_def rule_bad_def)
  have 1: "getProxyDNS rt_sample (db_rules [rule_off, rule_all, rule_bad]) ''a.test''
     = Inr (Some ''9.9.9.9'')"
    using getProxyDNS_first_match_or_raise [of "db_rules [rule_off, rule_all, rule_bad]"
        "[rule_off]" rule_all "[rule_bad]" rt_sample "''a.test''"] c
    by (simp add: rule_all_def db_rules_def)
  have 2: "getProxyDNS rt_sample (db_rules [rule_off]) ''a.test'' = Inr None"
    using getProxyDNS_first_match_or_raise [of "db_rules [rule_off]"
        "[]" rule_off "[]" rt_sample "''a.test''"] c
    by (simp add: db_rules_def)
  have 3: "getProxyDNS rt_sample (db_rules [rule_off, rule_bad, rule_all]) ''a.test''
     = Inl SyntaxError"
    using getProxyDNS_first_match_or_raise [of "db_rules [rule_off, rule_bad, rule_all]"
        "[rule_off]" rule_bad "[rule_all]" rt_sample "''a.test''"] c
    by (simp add: db_rules_def)
  from 1 2 3 show ?thesis by simp
qed

section \<open>The handler\<close>

lemma local_answer_eq:
  "local_answer rt row =
     [(''mame'', JString (r_name row)), (''type'', Packet_TYPE rt (r_type row)),
      (''class'', Packet_CLASS_IN rt), (''ttl'', JNumber (r_ttl row)),
      (if r_type row = ''CNAME'' then ''domain'' else if r_type row = ''TXT'' then ''data''
       else ''address'', js_text (r_value row))]"
  by (simp add: local_answer_def Object_assign_def)

lemma sql_select_filter:
  "sql_select wh rows = Inr kept \<Longrightarrow> kept = filter (\<lambda>row. wh row = Inr True) rows"
  by (induction rows arbitrary: kept) (auto split: sum.splits if_splits)

lemma getRecords_rows:
  "getRecords rt st name = Inr rows \<Longrightarrow>
   rows = sort_key r_timestamp (filter (\<lambda>row. getRecords_where rt name row = Inr True) (records st))"
  by (auto simp: getRecords_def order_by_def split: sum.splits dest: sql_select_filter)

lemma handle_local:
  "questions req = question # others \<Longrightarrow> getProxyDNS rt st (q_name question) = Inr None \<Longrightarrow>
   getRecords rt st (q_name question) = Inr rows \<Longrightarrow> rows \<noteq> [] \<Longrightarrow>
   handle rt st req =
     Inr ((createResponseFromRequest rt req)
            \<lparr>answers := answers (createResponseFromRequest rt req) @ map (local_answer rt) rows\<rparr>)"
  by (simp add: handle_def Let_def)

lemma getProxyDNS_records: "getProxyDNS rt (st\<lparr>records := rows\<rparr>) name = getProxyDNS rt st name"
  by (simp add: getProxyDNS_def getAllProxyRules_def)

lemma handle_forwards:
  "questions req = question # others \<Longrightarrow>
   getProxyDNS rt st (q_name question) = Inr (Some toAsk) \<Longrightarrow>
   handle rt st req =
     (case UDPClient rt toAsk (q_name question) of
        Inl err \<Rightarrow> Inl err
      | Inr reply \<Rightarrow> Inr ((createResponseFromRequest rt req)\<lparr>answers := answers reply\<rparr>))"
  by (simp add: handle_def Let_def)

lemma handle_raises:
  "questions req = question # others \<Longrightarrow>
   getProxyDNS rt st (q_name question) = Inl err \<Longrightarrow> handle rt st req = Inl err"
  by (simp add: handle_def Let_def)

lemma handle_no_rule:
  "questions req = question # others \<Longrightarrow>
   getProxyDNS rt st (q_name question) = Inr None \<Longrightarrow>
   handle rt st req =
     (case getRecords rt st (q_name question) of
        Inl err \<Rightarrow> Inl err
      | Inr rows \<Rightarrow>
          if rows \<noteq> [] then
            Inr ((createResponseFromRequest rt req)
                   \<lparr>answers := answers (createResponseFromRequest rt req) @ map (local_answer rt) rows\<rparr>)
          else
            (case UDPClient rt (DEFAULT_SERVER rt) (q_name question) of
               Inl err \<Rightarrow> Inl err
             | Inr reply \<Rightarrow> Inr ((createResponseFromRequest rt req)\<lparr>answers := answers reply\<rparr>)))"
  by (simp add: handle_def Let_def split: sum.splits)

lemma getProxyDNS_match:
  "proxy_rules st = pre @ rule # post \<Longrightarrow>
   \<forall>p\<in>set pre. compiles rt p \<and> \<not> rule_matches rt domain p \<Longrightarrow>
   rule_matches rt domain rule \<Longrightarrow>
   getProxyDNS rt st domain = Inr (Some (pr_addr rule))"
  by (simp add: getProxyDNS_def getAllProxyRules_def scan_rules_match)

lemma getProxyDNS_raise:
  "proxy_rules st = pre @ rule # post \<Longrightarrow>
   \<forall>p\<in>set pre. compiles rt p \<and> \<not> rule_matches rt domain p \<Longrightarrow>
   \<not> compiles rt rule \<Longrightarrow>
   getProxyDNS rt st domain = Inl SyntaxError"
  by (simp add: getProxyDNS_def getAllProxyRules_def scan_rules_raise)

lemma getProxyDNS_none:
  "\<forall>p\<in>set (proxy_rules st). compiles rt p \<and> \<not> rule_matches rt domain p \<Longrightarrow>
   getProxyDNS rt st domain = Inr None"
  by (simp add: getProxyDNS_def getAllProxyRules_def scan_rules_none)

text \<open>
  Claim C2, as amended. The handler resolves the name of the first question in a fixed
  order, and the order starts with the scan of the rules, which can raise. When the scan
  comes to a rule that matches, every rule before it compiling and not matching, the name
  is forwarded to that rule's server and the response carries the reply's answers and
  nothing else; the record table is not read (the result is the same for every content of
  the table). When the scan comes to a rule whose pattern does not compile before any rule
  has matched, the handler raises the \<^verbatim>\<open>SyntaxError\<close> and sends nothing, whatever the rules
  after it and the record table hold. Only when every rule compiles and none matches are
  the records read: when the query raises, so does the handler; when it returns rows
  (the rows of the table that satisfy its condition, oldest first), the response carries
  the answers built from them; and only when it returns no row is the name forwarded to
  the one configured default server, and the response carries that reply's answers.
\<close>

theorem handle_resolution_order:
  assumes "questions req = question # others"
  shows
  "(proxy_rules st = pre @ rule # post \<and>
    (\<forall>p\<in>set pre. compiles rt p \<and> \<not> rule_matches rt (q_name question) p) \<and>
    rule_matches rt (q_name question) rule \<longrightarrow>
      handle rt st req =
        (case UDPClient rt (pr_addr rule) (q_name question) of
           Inl err \<Rightarrow> Inl err
         | Inr reply \<Rightarrow> Inr ((createResponseFromRequest rt req)\<lparr>answers := answers reply\<rparr>)) \<and>
      handle rt (st\<lparr>records := other\<rparr>) req = handle rt st req) \<and>
   (proxy_rules st = pre @ rule # post \<and>
    (\<forall>p\<in>set pre. compiles rt p \<and> \<not> rule_matches rt (q_name question) p) \<and>
    \<not> compiles rt rule \<longrightarrow>
      handle rt st req = Inl SyntaxError \<and>
      handle rt (st\<lparr>records := other\<rparr>) req = Inl SyntaxError) \<and>
   ((\<forall>p\<in>set (proxy_rules st). compiles rt p \<and> \<not> rule_matches rt (q_name question) p) \<longrightarrow>
      (getRecords rt st (q_name question) = Inl err \<longrightarrow> handle rt st req = Inl err) \<and>
      (getRecords rt st (q_name question) = Inr rows \<longrightarrow>
         rows = sort_key r_timestamp
                  (filter (\<lambda>row. getRecords_where rt (q_name question) row = Inr True) (records st)) \<and>
         (rows \<noteq> [] \<longrightarrow>
            handle rt st req =
              Inr ((createResponseFromRequest rt req)
                     \<lparr>answers := answers (createResponseFromRequest rt req) @
                                 map (local_answer rt) rows\<rparr>)) \<and>
         (rows = [] \<longrightarrow>
            handle rt st req =
              (case UDPClient rt (DEFAULT_SERVER rt) (q_name question) of
                 Inl err \<Rightarrow> Inl err
               | Inr reply \<Rightarrow>
                   Inr ((createResponseFromRequest rt req)\<lparr>answers := answers reply\<rparr>)))))"
proof (intro conjI impI)
  assume a: "proxy_rules st = pre @ rule # post \<and>
    (\<forall>p\<in>set pre. compiles rt p \<and> \<not> rule_matches rt (q_name question) p) \<and>
    rule_matches rt (q_name question) rule"
  then have p: "getProxyDNS rt st (q_name question) = Inr (Some (pr_addr rule))"
    by (simp add: getProxyDNS_match)
  from handle_forwards [OF assms p]
  show 1: "handle rt st req =
        (case UDPClient rt (pr_addr rule) (q_name question) of
           Inl err \<Rightarrow> Inl err
         | Inr reply \<Rightarrow> Inr ((createResponseFromRequest rt req)\<lparr>answers := answers reply\<rparr>))" .
  from p have "getProxyDNS rt (st\<lparr>records := other\<rparr>) (q_name question) = Inr (Some (pr_addr rule))"
    by (simp add: getProxyDNS_records)
  from handle_forwards [OF assms this] 1
  show "handle rt (st\<lparr>records := other\<rparr>) req = handle rt st req" by simp
next
  assume a: "proxy_rules st = pre @ rule # post \<and>
    (\<forall>p\<in>set pre. compiles rt p \<and> \<not> rule_matches rt (q_name question) p) \<and>
    \<not> compiles rt rule"
  then have p: "getProxyDNS rt st (q_name question) = Inl SyntaxError"
    by (simp add: getProxyDNS_raise)
  from handle_raises [OF assms p] show "handle rt st req = Inl SyntaxError" .
  from p have "getProxyDNS rt (st\<lparr>records := other\<rparr>) (q_name question) = Inl SyntaxError"
    by (simp add: getProxyDNS_records)
  from handle_raises [OF assms this]
  show "handle rt (st\<lparr>records := other\<rparr>) req = Inl SyntaxError" .
next
  assume a: "\<forall>p\<in>set (proxy_rules st). compiles rt p \<and> \<not> rule_matches rt (q_name question) p"
    and r: "getRecords rt st (q_name question) = Inl err"
  from handle_no_rule [OF assms getProxyDNS_none [OF a]] r
  show "handle rt st req = Inl err" by simp
next
  assume r: "getRecords rt st (q_name question) = Inr rows"
  then show "rows = sort_key r_timestamp
                  (filter (\<lambda>row. getRecords_where rt (q_name question) row = Inr True) (records st))"
    by (rule getRecords_rows)
next
  assume a: "\<forall>p\<in>set (proxy_rules st). compiles rt p \<and> \<not> rule_matches rt (q_name question) p"
    and r: "getRecords rt st (q_name question) = Inr rows" and n: "rows \<noteq> []"
  from handle_no_rule [OF assms getProxyDNS_none [OF a]] r n
  show "handle rt st req =
              Inr ((createResponseFromRequest rt req)
                     \<lparr>answers := answers (createResponseFromRequest rt req) @
                                 map (local_answer rt) rows\<rparr>)" by simp
next
  assume a: "\<forall>p\<in>set (proxy_rules st). compiles rt p \<and> \<not> rule_matches rt (q_name question) p"
    and r: "getRecords rt st (q_name question) = Inr rows" and n: "rows = []"
  from handle_no_rule [OF assms getProxyDNS_none [OF a]] r n
  show "handle rt st req =
              (case UDPClient rt (DEFAULT_SERVER rt) (q_name question) of
                 Inl err \<Rightarrow> Inl err
               | Inr reply \<Rightarrow>
                   Inr ((createResponseFromRequest rt req)\<lparr>answers := answers reply\<rparr>))" by simp
qed

text \<open>
  The claim as the specification states it fails twice on a rule whose pattern is \<^verbatim>\<open>(\<close>.
  Stored before a rule that matches every name, it keeps the query from that rule's
  server, which would have answered: the handler raises. Stored alone, no rule matches,
  the record \<^verbatim>\<open>a.example.com\<close> matches the query, and the record is not served: the handler
  raises again.
\<close>

theorem handle_pattern_error_counterexample:
  "rule_matches rt_sample ''a.example.com'' rule_all \<and>
   UDPClient rt_sample (pr_addr rule_all) ''a.example.com''
     = Inr \<lparr>questions = [], answers = [[(''from'', JString ''9.9.9.9'')]]\<rparr> \<and>
   handle rt_sample (db_sample [rule_bad, rule_all] [rec_a]) (query ''a.example.com'')
     = Inl SyntaxError \<and>
   \<not> rule_matches rt_sample ''a.example.com'' rule_bad \<and>
   getRecords rt_sample (db_sample [rule_bad] [rec_a]) ''a.example.com'' = Inr [rec_a] \<and>
   handle rt_sample (db_sample [rule_bad] [rec_a]) (query ''a.example.com'')
     = Inl SyntaxError"
  by code_simp

theorem handle_resolution_order_witness:
  "handle rt_sample (db_sample [rule_off, rule_all] [rec_a]) (query ''a.example.com'')
     = Inr \<lparr>questions = [\<lparr>q_name = ''a.example.com''\<rparr>], answers = [[(''from'', JString ''9.9.9.9'')]]\<rparr> \<and>
   handle rt_sample (db_sample [rule_off, rule_bad, rule_all] [rec_a]) (query ''a.example.com'')
     = Inl SyntaxError \<and>
   handle rt_sample (db_sample [rule_off] [rec_a, rec_star]) (query ''a.example.com'')
     = Inr \<lparr>questions = [\<lparr>q_name = ''a.example.com''\<rparr>],
            answers = [local_answer rt_sample rec_star, local_answer rt_sample rec_a]\<rparr> \<and>
   handle rt_sample (db_sample [rule_off] [rec_a, rec_star]) (query ''x.y.example.com'')
     = Inr \<lparr>questions = [\<lparr>q_name = ''x.y.example.com''\<rparr>], answers = [[(''from'', JString ''1.1.1.1'')]]\<rparr>"
proof -
  have c: "compiles rt_sample rule_off" "\<not> rule_matches rt_sample name rule_off"
    "rule_matches rt_sample name rule_all" "\<not> compiles rt_sample rule_bad" for name
    by (simp_all add: compiles_def rule_matches_def RegExp_sample_def rt_sample_def
        rule_off_def rule_all_def rule_bad_def)
  have q: "questions (query name) = \<lparr>q_name = name\<rparr> # []" for name
    by (simp add: query_def)
  have r2: "getRecords rt_sample (db_sample [rule_off] [rec_a, rec_star]) ''a.example.com'' = Inr [rec_star, rec_a]"
    by code_simp
  have r3: "getRecords rt_sample (db_sample [rule_off] [rec_a, rec_star]) ''x.y.example.com'' = Inr []"
    by code_simp
  have 1: "handle rt_sample (db_sample [rule_off, rule_all] [rec_a]) (query ''a.example.com'')
     = Inr \<lparr>questions = [\<lparr>q_name = ''a.example.com''\<rparr>], answers = [[(''from'', JString ''9.9.9.9'')]]\<rparr>"
    using handle_resolution_order [OF q, where st = "db_sample [rule_off, rule_all] [rec_a]"
        and pre = "[rule_off]" and rule = rule_all and post = "[]" and rt = rt_sample
        and name1 = "''a.example.com''"] c
    by (simp add: db_sample_def query_def rt_sample_def rule_all_def)
  have 2: "handle rt_sample (db_sample [rule_off, rule_bad, rule_all] [rec_a]) (query ''a.example.com'')
     = Inl SyntaxError"
    using handle_resolution_order [OF q, where st = "db_sample [rule_off, rule_bad, rule_all] [rec_a]"
        and pre = "[rule_off]" and rule = rule_bad and post = "[rule_all]" and rt = rt_sample
        and name1 = "''a.example.com''"] c
    by (simp add: db_sample_def)
  have 3: "handle rt_sample (db_sample [rule_off] [rec_a, rec_star]) (query ''a.example.com'')
     = Inr \<lparr>questions = [\<lparr>q_name = ''a.example.com''\<rparr>],
            answers = [local_answer rt_sample rec_star, local_answer rt_sample rec_a]\<rparr>"
    using handle_resolution_order [OF q, where st = "db_sample [rule_off] [rec_a, rec_star]"
        and rt = rt_sample and name1 = "''a.example.com''" and rows = "[rec_star, rec_a]"] c r2
    by (simp add: db_sample_def query_def rt_sample_def)
  have 4: "handle rt_sample (db_sample [rule_off] [rec_a, rec_star]) (query ''x.y.example.com'')
     = Inr \<lparr>questions = [\<lparr>q_name = ''x.y.example.com''\<rparr>], answers = [[(''from'', JString ''1.1.1.1'')]]\<rparr>"
    using handle_resolution_order [OF q, where st = "db_sample [rule_off] [rec_a, rec_star]"
        and rt = rt_sample and name1 = "''x.y.example.com''" and rows = "[]"] c r3
    by (simp add: db_sample_def query_def rt_sample_def)
  from 1 2 3 4 show ?thesis by simp
qed

text \<open>
  Claim C8. When the handler answers from the record table it builds exactly one answer
  for each row \<^verbatim>\<open>getRecords\<close> returned, in the same order. The rows are the matching rows of
  the table sorted by \<^verbatim>\<open>timestamp\<close>, the time \<^verbatim>\<open>pushRecord\<close> inserted them at, oldest first.
  Each answer has its row's \<^verbatim>\<open>ttl\<close>; a \<^verbatim>\<open>CNAME\<close> row's value is the answer's \<^verbatim>\<open>domain\<close>, a
  \<^verbatim>\<open>TXT\<close> row's value its \<^verbatim>\<open>data\<close>, and the value of any other row (\<^verbatim>\<open>A\<close> and \<^verbatim>\<open>AAAA\<close> among
  them) its \<^verbatim>\<open>address\<close>, as stored and unchecked.
\<close>

theorem handle_local_answer_per_record:
  assumes "questions req = question # others"
    and "getProxyDNS rt st (q_name question) = Inr None"
    and "getRecords rt st (q_name question) = Inr rows"
    and "rows \<noteq> []"
  shows "\<exists>built.
     handle rt st req =
       Inr ((createResponseFromRequest rt req)
              \<lparr>answers := answers (createResponseFromRequest rt req) @ built\<rparr>) \<and>
     length built = length rows \<and>
     rows = sort_key r_timestamp
              (filter (\<lambda>row. getRecords_where rt (q_name question) row = Inr True) (records st)) \<and>
     sorted (map r_timestamp rows) \<and>
     (\<forall>i<length rows.
        map_of (built ! i) ''ttl'' = Some (JNumber (r_ttl (rows ! i))) \<and>
        (r_type (rows ! i) = ''CNAME'' \<longrightarrow>
           map_of (built ! i) ''domain'' = Some (js_text (r_value (rows ! i)))) \<and>
        (r_type (rows ! i) = ''TXT'' \<longrightarrow>
           map_of (built ! i) ''data'' = Some (js_text (r_value (rows ! i)))) \<and>
        (r_type (rows ! i) \<noteq> ''CNAME'' \<and> r_type (rows ! i) \<noteq> ''TXT'' \<longrightarrow>
           map_of (built ! i) ''address'' = Some (js_text (r_value (rows ! i)))))"
proof (intro exI conjI)
  show "handle rt st req =
       Inr ((createResponseFromRequest rt req)
              \<lparr>answers := answers (createResponseFromRequest rt req) @ map (local_answer rt) rows\<rparr>)"
    using assms by (rule handle_local)
  show "length (map (local_answer rt) rows) = length rows" by simp
  show rows: "rows = sort_key r_timestamp
              (filter (\<lambda>row. getRecords_where rt (q_name question) row = Inr True) (records st))"
    using assms(3) by (rule getRecords_rows)
  show "sorted (map r_timestamp rows)"
    by (subst rows) (rule sorted_sort_key)
  show "\<forall>i<length rows.
        map_of (map (local_answer rt) rows ! i) ''ttl'' = Some (JNumber (r_ttl (rows ! i))) \<and>
        (r_type (rows ! i) = ''CNAME'' \<longrightarrow>
           map_of (map (local_answer rt) rows ! i) ''domain'' = Some (js_text (r_value (rows ! i)))) \<and>
        (r_type (rows ! i) = ''TXT'' \<longrightarrow>
           map_of (map (local_answer rt) rows ! i) ''data'' = Some (js_text (r_value (rows ! i)))) \<and>
        (r_type (rows ! i) \<noteq> ''CNAME'' \<and> r_type (rows ! i) \<noteq> ''TXT'' \<longrightarrow>
           map_of (map (local_answer rt) rows ! i) ''address'' = Some (js_text (r_value (rows ! i))))"
    by (simp add: local_answer_eq)
qed

theorem handle_local_answer_per_record_witness:
  "getProxyDNS rt_sample (db_sample [rule_off] [rec_a, rec_star]) ''a.example.com'' = Inr None \<and>
   getRecords rt_sample (db_sample [rule_off] [rec_a, rec_star]) ''a.example.com'' = Inr [rec_star, rec_a] \<and>
   (\<exists>built.
      handle rt_sample (db_sample [rule_off] [rec_a, rec_star]) (query ''a.example.com'') =
        Inr \<lparr>questions = [\<lparr>q_name = ''a.example.com''\<rparr>], answers = built\<rparr> \<and>
      length built = 2 \<and>
      map_of (built ! 0) ''domain'' = Some (JString ''target.example.net'') \<and>
      map_of (built ! 0) ''ttl'' = Some (JNumber 300) \<and>
      map_of (built ! 1) ''address'' = Some (JString ''10.0.0.1'') \<and>
      map_of (built ! 1) ''ttl'' = Some (JNumber 60))"
proof -
  have p: "getProxyDNS rt_sample (db_sample [rule_off] [rec_a, rec_star]) ''a.example.com'' = Inr None"
    by code_simp
  have r: "getRecords rt_sample (db_sample [rule_off] [rec_a, rec_star]) ''a.example.com'' = Inr [rec_star, rec_a]"
    by code_simp
  from handle_local_answer_per_record [of "query ''a.example.com''" "\<lparr>q_name = ''a.example.com''\<rparr>" "[]"
      rt_sample "db_sample [rule_off] [rec_a, rec_star]" "[rec_star, rec_a]"] p r
  obtain built where b:
    "handle rt_sample (db_sample [rule_off] [rec_a, rec_star]) (query ''a.example.com'') =
       Inr ((createResponseFromRequest rt_sample (query ''a.example.com''))
              \<lparr>answers := answers (createResponseFromRequest rt_sample (query ''a.example.com'')) @ built\<rparr>)"
    "length built = length [rec_star, rec_a]"
    "\<forall>i<length [rec_star, rec_a].
        map_of (built ! i) ''ttl'' = Some (JNumber (r_ttl ([rec_star, rec_a] ! i))) \<and>
        (r_type ([rec_star, rec_a] ! i) = ''CNAME'' \<longrightarrow>
           map_of (built ! i) ''domain'' = Some (js_text (r_value ([rec_star, rec_a] ! i)))) \<and>
        (r_type ([rec_star, rec_a] ! i) = ''TXT'' \<longrightarrow>
           map_of (built ! i) ''data'' = Some (js_text (r_value ([rec_star, rec_a] ! i)))) \<and>
        (r_type ([rec_star, rec_a] ! i) \<noteq> ''CNAME'' \<and> r_type ([rec_star, rec_a] ! i) \<noteq> ''TXT'' \<longrightarrow>
           map_of (built ! i) ''address'' = Some (js_text (r_value ([rec_star, rec_a] ! i))))"
    by (auto simp: query_def)
  from b(3) have "map_of (built ! 0) ''domain'' = Some (JString ''target.example.net'')"
    "map_of (built ! 0) ''ttl'' = Some (JNumber 300)"
    by (auto simp: rec_star_def js_text_def)
  moreover from b(3) have "map_of (built ! 1) ''address'' = Some (JString ''10.0.0.1'')"
    "map_of (built ! 1) ''ttl'' = Some (JNumber 60)"
    by (auto simp: rec_a_def js_text_def)
  moreover from b(1) have "handle rt_sample (db_sample [rule_off] [rec_a, rec_star]) (query ''a.example.com'') =
        Inr \<lparr>questions = [\<lparr>q_name = ''a.example.com''\<rparr>], answers = built\<rparr>"
    by (simp add: rt_sample_def query_def)
  ultimately show ?thesis using p r b(2) by auto
qed

text \<open>
  Claim C10. An answer the handler builds from a row has no property \<^verbatim>\<open>name\<close>: the row's
  name is written under the key \<^verbatim>\<open>mame\<close>.
\<close>

theorem handle_local_answer_no_name:
  assumes "questions req = question # others"
    and "getProxyDNS rt st (q_name question) = Inr None"
    and "getRecords rt st (q_name question) = Inr rows"
    and "rows \<noteq> []"
  shows "\<exists>built.
     handle rt st req =
       Inr ((createResponseFromRequest rt req)
              \<lparr>answers := answers (createResponseFromRequest rt req) @ built\<rparr>) \<and>
     length built = length rows \<and>
     (\<forall>i<length rows.
        map_of (built ! i) ''name'' = None \<and>
        map_of (built ! i) ''mame'' = Some (JString (r_name (rows ! i))))"
proof (intro exI conjI)
  show "handle rt st req =
       Inr ((createResponseFromRequest rt req)
              \<lparr>answers := answers (createResponseFromRequest rt req) @ map (local_answer rt) rows\<rparr>)"
    using assms by (rule handle_local)
  show "length (map (local_answer rt) rows) = length rows" by simp
  show "\<forall>i<length rows.
        map_of (map (local_answer rt) rows ! i) ''name'' = None \<and>
        map_of (map (local_answer rt) rows ! i) ''mame'' = Some (JString (r_name (rows ! i)))"
    by (simp add: local_answer_eq)
qed

theorem handle_local_answer_no_name_witness:
  "getProxyDNS rt_sample (db_sample [] [rec_a]) ''a.example.com'' = Inr None \<and>
   getRecords rt_sample (db_sample [] [rec_a]) ''a.example.com'' = Inr [rec_a] \<and>
   (\<exists>built.
      handle rt_sample (db_sample [] [rec_a]) (query ''a.example.com'') =
        Inr \<lparr>questions = [\<lparr>q_name = ''a.example.com''\<rparr>], answers = built\<rparr> \<and>
      length built = 1 \<and>
      map_of (built ! 0) ''name'' = None \<and>
      map_of (built ! 0) ''mame'' = Some (JString ''a.example.com''))"
proof -
  have p: "getProxyDNS rt_sample (db_sample [] [rec_a]) ''a.example.com'' = Inr None"
    by code_simp
  have r: "getRecords rt_sample (db_sample [] [rec_a]) ''a.example.com'' = Inr [rec_a]"
    by code_simp
  from handle_local_answer_no_name [of "query ''a.example.com''" "\<lparr>q_name = ''a.example.com''\<rparr>" "[]"
      rt_sample "db_sample [] [rec_a]" "[rec_a]"] p r
  obtain built where b:
    "handle rt_sample (db_sample [] [rec_a]) (query ''a.example.com'') =
       Inr ((createResponseFromRequest rt_sample (query ''a.example.com''))
              \<lparr>answers := answers (createResponseFromRequest rt_sample (query ''a.example.com'')) @ built\<rparr>)"
    "length built = length [rec_a]"
    "\<forall>i<length [rec_a].
        map_of (built ! i) ''name'' = None \<and>
        map_of (built ! i) ''mame'' = Some (JString (r_name ([rec_a] ! i)))"
    by (auto simp: query_def)
  from b(3) have "map_of (built ! 0) ''name'' = None"
    "map_of (built ! 0) ''mame'' = Some (JString ''a.example.com'')"
    by (auto simp: rec_a_def)
  moreover from b(1) have "handle rt_sample (db_sample [] [rec_a]) (query ''a.example.com'') =
        Inr \<lparr>questions = [\<lparr>q_name = ''a.example.com''\<rparr>], answers = built\<rparr>"
    by (simp add: rt_sample_def query_def)
  ultimately show ?thesis using p r b(2) by auto
qed

section \<open>Issuing certificates\<close>

lemma getCert_None: "getCert st d = None \<longleftrightarrow> pairs_of st d = []"
  by (auto simp: getCert_def pairs_of_def find_None_iff filter_empty_conv)



lemma removeCertByID_ids:
  "set (map cp_id (certs (removeCertByID st u))) \<subseteq> set (map cp_id (certs st))"
  by (auto simp: removeCertByID_def)

lemma removed_old_ids:
  "set (map cp_id (certs (removed_old st d))) \<subseteq> set (map cp_id (certs st))"
  using removeCertByID_ids by (auto simp: removed_old_def split: option.splits)


lemma generateCert_ca_ok:
  assumes "randomUUID fr \<notin> set (map cp_id (certs st))"
  shows "\<exists>pair. generateCert fr st domain True =
           (Inr pair, (removed_old st domain)\<lparr>certs := certs (removed_old st domain) @ [pair]\<rparr>) \<and>
         cp_id pair = randomUUID fr \<and> cp_domain pair = ''.'' \<and>
         cp_until pair = now fr + VALID_MS_CA \<and>
         signedWith (cp_cert pair) = privateKey (generateKeyPair fr)"
proof -
  have "randomUUID fr \<notin> set (map cp_id (certs (removed_old st domain)))"
    using assms removed_old_ids by blast
  then show ?thesis
    by (simp add: generateCert_def Let_def removed_old_def)
qed

lemma find_filter_hd:
  "find P xs = (case filter P xs of [] \<Rightarrow> None | x # _ \<Rightarrow> Some x)"
  by (induction xs) auto

lemma getCert_pairs_of:
  "getCert st d = (case pairs_of st d of [] \<Rightarrow> None | row # _ \<Rightarrow> Some row)"
  unfolding getCert_def pairs_of_def by (rule find_filter_hd)

lemma same_id_same_row:
  "distinct (map cp_id xs) \<Longrightarrow> a \<in> set xs \<Longrightarrow> b \<in> set xs \<Longrightarrow> cp_id a = cp_id b \<Longrightarrow> a = b"
  by (meson distinct_map inj_onD)

lemma pairs_of_removed_other:
  assumes "distinct (map cp_id (certs st))" and "d' \<noteq> d"
  shows "pairs_of (removed_old st d) d' = pairs_of st d'"
proof (cases "getCert st d")
  case None
  then show ?thesis by (simp add: removed_old_def)
next
  case (Some old)
  then have old: "old \<in> set (certs st)" "cp_domain old = d"
    by (auto simp: getCert_def find_Some_iff)
  have "filter (\<lambda>row. cp_domain row = d') (filter (\<lambda>row. cp_id row \<noteq> cp_id old) (certs st))
        = filter (\<lambda>row. cp_domain row = d') (certs st)"
    unfolding filter_filter
  proof (rule filter_cong [OF refl])
    fix row assume "row \<in> set (certs st)"
    with assms old same_id_same_row [of "certs st" row old]
    show "(cp_id row \<noteq> cp_id old \<and> cp_domain row = d') = (cp_domain row = d')"
      by auto
  qed
  with Some show ?thesis by (simp add: removed_old_def removeCertByID_def pairs_of_def)
qed

lemma filter_remove_first:
  "distinct (map f xs) \<Longrightarrow>
   filter P (filter (\<lambda>x. f x \<noteq> f (hd (filter P xs))) xs) = tl (filter P xs)"
proof (induction xs)
  case Nil
  then show ?case by simp
next
  case (Cons x xs)
  from Cons.prems have fx: "f x \<notin> f ` set xs" and dist: "distinct (map f xs)"
    by simp_all
  show ?case
  proof (cases "P x")
    case True
    from fx have "filter (\<lambda>y. f y \<noteq> f x) xs = xs"
      by (intro filter_True ballI) (metis imageI)
    with True show ?thesis by simp
  next
    case False
    show ?thesis
    proof (cases "filter P xs = []")
      case True
      then have "filter P (filter Q xs) = []" for Q
        by (simp add: filter_empty_conv)
      with True False show ?thesis by simp
    next
      case nonempty: False
      then have "hd (filter P xs) \<in> set (filter P xs)"
        by (rule hd_in_set)
      then have "hd (filter P xs) \<in> set xs"
        by simp
      with fx have "f (hd (filter P xs)) \<noteq> f x"
        by (metis imageI)
      with False Cons.IH [OF dist] show ?thesis by simp
    qed
  qed
qed

lemma pairs_of_removed_same:
  assumes "distinct (map cp_id (certs st))"
  shows "pairs_of (removed_old st d) d = tl (pairs_of st d)"
proof (cases "pairs_of st d")
  case Nil
  then show ?thesis by (simp add: removed_old_def getCert_pairs_of)
next
  case (Cons old rest)
  then have "getCert st d = Some (hd (filter (\<lambda>row. cp_domain row = d) (certs st)))"
    by (simp add: getCert_pairs_of pairs_of_def)
  then show ?thesis
    using filter_remove_first [OF assms, of "\<lambda>row. cp_domain row = d"]
    by (simp add: removed_old_def removeCertByID_def pairs_of_def)
qed

lemma distinct_removed_old:
  "distinct (map cp_id (certs st)) \<Longrightarrow> distinct (map cp_id (certs (removed_old st d)))"
  by (auto simp: removed_old_def removeCertByID_def distinct_map_filter split: option.splits)

lemma pairs_of_append:
  "pairs_of (st\<lparr>certs := certs st @ [p]\<rparr>) d = pairs_of st d @ (if cp_domain p = d then [p] else [])"
  by (simp add: pairs_of_def)

lemma getCert_append_same:
  "cp_domain p = d \<Longrightarrow> getCert (st\<lparr>certs := certs st @ [p]\<rparr>) d \<noteq> None"
  by (simp add: getCert_pairs_of pairs_of_append split: list.splits)

lemma init_ok_root:
  assumes "fst (init fr st) = Inr ()"
  shows "getCert (snd (init fr st)) ''.'' \<noteq> None"
proof (cases "getCert st ''.''")
  case None
  with assms have fresh: "randomUUID fr \<notin> set (map cp_id (certs st))"
    by (auto simp: init_def generateCert_def Let_def split: if_splits)
  from generateCert_ca_ok [OF fresh, of "''.''"] obtain pair where
    "generateCert fr st ''.'' True =
       (Inr pair, (removed_old st ''.'')\<lparr>certs := certs (removed_old st ''.'') @ [pair]\<rparr>)"
    "cp_domain pair = ''.''"
    by blast
  with None show ?thesis
    by (simp add: init_def getCert_append_same)
next
  case (Some root)
  then show ?thesis by (simp add: init_def)
qed

lemma init_no_root:
  assumes "getCert st ''.'' = None"
  shows "(randomUUID fr \<in> set (map cp_id (certs st)) \<longrightarrow> init fr st = (Inl UniqueViolation, st)) \<and>
         (randomUUID fr \<notin> set (map cp_id (certs st)) \<longrightarrow>
            (\<exists>pair. init fr st = (Inr (), st\<lparr>certs := certs st @ [pair]\<rparr>) \<and> cp_domain pair = ''.''))"
proof (intro conjI impI)
  assume "randomUUID fr \<in> set (map cp_id (certs st))"
  with assms show "init fr st = (Inl UniqueViolation, st)"
    by (simp add: init_def generateCert_def Let_def)
next
  assume "randomUUID fr \<notin> set (map cp_id (certs st))"
  from generateCert_ca_ok [OF this, of "''.''"] assms
  show "\<exists>pair. init fr st = (Inr (), st\<lparr>certs := certs st @ [pair]\<rparr>) \<and> cp_domain pair = ''.''"
    by (auto simp: init_def removed_old_def)
qed

lemma init_generates_root:
  assumes "getCert st ''.'' = None" and "fst (init fr st) = Inr ()"
  shows "\<exists>pair. certs (snd (init fr st)) = certs st @ [pair] \<and>
           cp_domain pair = ''.'' \<and> cp_id pair = randomUUID fr \<and>
           subject (cp_cert pair) = CA_NAME \<and> issuer (cp_cert pair) = CA_NAME \<and>
           signedWith (cp_cert pair) = cp_key pair \<and>
           extensions (cp_cert pair) = [basicConstraints True, keyUsage True True True] \<and>
           notAfter (cp_cert pair) = notBefore (cp_cert pair) + VALID_MS_CA"
proof -
  from assms have "randomUUID fr \<notin> set (map cp_id (certs st))"
    by (auto simp: init_def generateCert_def Let_def split: if_splits)
  with assms(1) show ?thesis
    by (simp add: init_def generateCert_def Let_def)
qed

lemma init_root: "getCert st ''.'' = Some root \<Longrightarrow> init fr st = (Inr (), st)"
  by (simp add: init_def)











text \<open>
  \<^verbatim>\<open>generateCert\<close>, \<^verbatim>\<open>init\<close>, \<^verbatim>\<open>deleteCert\<close> and \<^verbatim>\<open>removeCertByID\<close> keep the shape
  \<open>single_leaf\<close>, which the empty table has.
\<close>

lemma generateCert_states:
  "snd (generateCert fr st domain ca) = st \<or>
   snd (generateCert fr st domain ca) = removed_old st domain \<or>
   (\<exists>pair. fst (generateCert fr st domain ca) = Inr pair \<and> cp_id pair = randomUUID fr \<and>
           randomUUID fr \<notin> set (map cp_id (certs (removed_old st domain))) \<and>
           cp_domain pair = (if ca then ''.'' else domain) \<and>
           snd (generateCert fr st domain ca) =
             (removed_old st domain)\<lparr>certs := certs (removed_old st domain) @ [pair]\<rparr>)"
proof (cases "randomUUID fr \<in> set (map cp_id (certs (removed_old st domain)))")
  case True
  then show ?thesis
    by (cases "getCert st ''.''") (simp_all add: generateCert_def Let_def removed_old_def)
next
  case False
  show ?thesis
  proof (cases "ca \<or> getCert st ''.'' \<noteq> None")
    case True
    with False have "\<exists>pair. fst (generateCert fr st domain ca) = Inr pair \<and>
           cp_id pair = randomUUID fr \<and>
           cp_domain pair = (if ca then ''.'' else domain) \<and>
           snd (generateCert fr st domain ca) =
             (removed_old st domain)\<lparr>certs := certs (removed_old st domain) @ [pair]\<rparr>"
      by (cases "getCert st ''.''") (simp_all add: generateCert_def Let_def removed_old_def)
    with False show ?thesis by blast
  next
    case False
    then show ?thesis by (simp add: generateCert_def Let_def)
  qed
qed

lemma single_leaf_iff:
  "single_leaf st \<longleftrightarrow>
   distinct (map cp_id (certs st)) \<and> (\<forall>d. d \<noteq> ''.'' \<longrightarrow> length (pairs_of st d) \<le> 1)"
proof -
  have "length (pairs_of st d) \<le> 1"
    if "\<forall>row\<in>set (certs st). cp_domain row = ''.'' \<or> length (pairs_of st (cp_domain row)) \<le> 1"
      and "d \<noteq> ''.''" for d
  proof (cases "pairs_of st d")
    case Nil
    then show ?thesis by simp
  next
    case (Cons row rest)
    then have "row \<in> set (pairs_of st d)"
      by simp
    then have "row \<in> set (certs st) \<and> cp_domain row = d"
      by (simp add: pairs_of_def)
    with that show ?thesis by auto
  qed
  then show ?thesis
    by (auto simp: single_leaf_def list_all_iff)
qed

lemma removed_old_single:
  assumes "single_leaf st"
  shows "single_leaf (removed_old st domain)"
proof -
  from assms have pk: "distinct (map cp_id (certs st))"
    and one: "\<And>d. d \<noteq> ''.'' \<Longrightarrow> length (pairs_of st d) \<le> 1"
    by (simp_all add: single_leaf_iff)
  have "length (pairs_of (removed_old st domain) d) \<le> 1" if "d \<noteq> ''.''" for d
    using one [OF that] pairs_of_removed_same [OF pk, of d] pairs_of_removed_other [OF pk, of d domain]
    by (cases "d = domain") auto
  with distinct_removed_old [OF pk] show ?thesis
    by (simp add: single_leaf_iff)
qed

lemma generateCert_single_leaf:
  assumes "single_leaf st"
  shows "single_leaf (snd (generateCert fr st domain ca))"
proof -
  from assms have pk: "distinct (map cp_id (certs st))"
    and one: "\<And>d. d \<noteq> ''.'' \<Longrightarrow> length (pairs_of st d) \<le> 1"
    by (simp_all add: single_leaf_iff)
  let ?r = "removed_old st domain"
  have r: "single_leaf ?r" using assms by (rule removed_old_single)
  have "single_leaf (?r\<lparr>certs := certs ?r @ [pair]\<rparr>)"
    if p: "cp_id pair = randomUUID fr" "randomUUID fr \<notin> set (map cp_id (certs ?r))"
      "cp_domain pair = (if ca then ''.'' else domain)" for pair
  proof -
    have "length (pairs_of (?r\<lparr>certs := certs ?r @ [pair]\<rparr>) d) \<le> 1" if d: "d \<noteq> ''.''" for d
    proof (cases "cp_domain pair = d")
      case True
      with p(3) d have "d = domain" by (auto split: if_splits)
      then have "pairs_of ?r d = tl (pairs_of st d)"
        using pairs_of_removed_same [OF pk, of domain] by simp
      moreover have "tl (pairs_of st d) = []"
        using one [OF d] by (cases "pairs_of st d") simp_all
      ultimately show ?thesis using True by (simp add: pairs_of_append)
    next
      case False
      with r d show ?thesis by (simp add: pairs_of_append single_leaf_iff)
    qed
    moreover have "distinct (map cp_id (certs (?r\<lparr>certs := certs ?r @ [pair]\<rparr>)))"
      using r p by (simp add: single_leaf_iff)
    ultimately show ?thesis by (simp add: single_leaf_iff)
  qed
  with generateCert_states [of fr st domain ca] assms r show ?thesis
    by auto
qed

lemma init_single_leaf: "single_leaf st \<Longrightarrow> single_leaf (snd (init fr st))"
  using generateCert_single_leaf [of st fr "''.''" True]
  by (auto simp: init_def split: option.splits sum.splits prod.splits)

lemma filter_single_leaf:
  assumes "single_leaf st"
  shows "single_leaf (st\<lparr>certs := filter Q (certs st)\<rparr>)"
proof -
  from assms have pk: "distinct (map cp_id (certs st))"
    and one: "\<And>d. d \<noteq> ''.'' \<Longrightarrow> length (pairs_of st d) \<le> 1"
    by (simp_all add: single_leaf_iff)
  have "pairs_of (st\<lparr>certs := filter Q (certs st)\<rparr>) d = filter Q (pairs_of st d)" for d
    by (simp add: pairs_of_def conj_commute)
  then have "length (pairs_of (st\<lparr>certs := filter Q (certs st)\<rparr>) d) \<le> length (pairs_of st d)" for d
    by simp
  then have "length (pairs_of (st\<lparr>certs := filter Q (certs st)\<rparr>) d) \<le> 1" if "d \<noteq> ''.''" for d
    using one [OF that] le_trans by blast
  moreover have "distinct (map cp_id (certs (st\<lparr>certs := filter Q (certs st)\<rparr>)))"
    using pk by (simp add: distinct_map_filter)
  ultimately show ?thesis
    by (simp add: single_leaf_iff)
qed

lemma deleteCert_single_leaf: "single_leaf st \<Longrightarrow> single_leaf (deleteCert st domain)"
  unfolding deleteCert_def by (rule filter_single_leaf)

lemma removeCertByID_single_leaf: "single_leaf st \<Longrightarrow> single_leaf (removeCertByID st uuid)"
  unfolding removeCertByID_def by (rule filter_single_leaf)

lemma empty_single_leaf: "single_leaf db_empty"
  by (simp add: single_leaf_def db_empty_def)



text \<open>
  Claim C6. \<^verbatim>\<open>init\<close> leaves the tables as they are when a pair is stored under \<^verbatim>\<open>"."\<close>. So a
  second run after a run that succeeded generates nothing, and two runs on tables without
  a root pair leave at most one pair under \<^verbatim>\<open>"."\<close>, also when the first run failed. A run
  that succeeds on tables without a root pair adds one row: a pair under \<^verbatim>\<open>"."\<close> whose
  certificate has subject and issuer \<^verbatim>\<open>yourdns\<close>, is signed with the pair's own key, is
  marked as a certificate authority and is valid for 25 years.
\<close>

theorem init_idempotent:
  "(getCert st ''.'' \<noteq> None \<longrightarrow> init fr st = (Inr (), st)) \<and>
   (fst (init fr1 st) = Inr () \<longrightarrow>
      init fr2 (snd (init fr1 st)) = (Inr (), snd (init fr1 st))) \<and>
   (getCert st ''.'' = None \<longrightarrow>
      length (pairs_of (snd (init fr2 (snd (init fr1 st)))) ''.'') \<le> 1) \<and>
   (getCert st ''.'' = None \<and> fst (init fr st) = Inr () \<longrightarrow>
      (\<exists>pair. certs (snd (init fr st)) = certs st @ [pair] \<and>
           cp_domain pair = ''.'' \<and> cp_id pair = randomUUID fr \<and>
           subject (cp_cert pair) = CA_NAME \<and> issuer (cp_cert pair) = CA_NAME \<and>
           signedWith (cp_cert pair) = cp_key pair \<and>
           extensions (cp_cert pair) = [basicConstraints True, keyUsage True True True] \<and>
           notAfter (cp_cert pair) = notBefore (cp_cert pair) + VALID_MS_CA))"
proof (intro conjI impI)
  assume "getCert st ''.'' \<noteq> None"
  then show "init fr st = (Inr (), st)"
    by (auto simp: init_root)
next
  assume "getCert st ''.'' = None \<and> fst (init fr st) = Inr ()"
  then show "\<exists>pair. certs (snd (init fr st)) = certs st @ [pair] \<and>
           cp_domain pair = ''.'' \<and> cp_id pair = randomUUID fr \<and>
           subject (cp_cert pair) = CA_NAME \<and> issuer (cp_cert pair) = CA_NAME \<and>
           signedWith (cp_cert pair) = cp_key pair \<and>
           extensions (cp_cert pair) = [basicConstraints True, keyUsage True True True] \<and>
           notAfter (cp_cert pair) = notBefore (cp_cert pair) + VALID_MS_CA"
    using init_generates_root [of st fr] by blast
next
  assume "fst (init fr1 st) = Inr ()"
  then have "getCert (snd (init fr1 st)) ''.'' \<noteq> None"
    by (rule init_ok_root)
  then show "init fr2 (snd (init fr1 st)) = (Inr (), snd (init fr1 st))"
    by (auto simp: init_root)
next
  assume none: "getCert st ''.'' = None"
  then have empty: "pairs_of st ''.'' = []"
    by (simp add: getCert_None)
  have one: "length (pairs_of (snd (init f s)) ''.'') \<le> 1"
    if "getCert s ''.'' = None" for f s
    using init_no_root [OF that, of f] that
    by (cases "randomUUID f \<in> set (map cp_id (certs s))")
       (auto simp: getCert_None pairs_of_append)
  show "length (pairs_of (snd (init fr2 (snd (init fr1 st)))) ''.'') \<le> 1"
  proof (cases "getCert (snd (init fr1 st)) ''.''")
    case None
    then show ?thesis by (rule one)
  next
    case (Some root)
    then have "init fr2 (snd (init fr1 st)) = (Inr (), snd (init fr1 st))"
      by (rule init_root)
    with one [OF none, of fr1] show ?thesis by simp
  qed
qed

theorem init_idempotent_witness:
  "getCert db_empty ''.'' = None \<and>
   fst (init fresh0 db_empty) = Inr () \<and>
   getCert db_root ''.'' \<noteq> None \<and>
   init fresh1 db_root = (Inr (), db_root) \<and>
   init fresh1 (snd (init fresh0 db_empty)) = (Inr (), snd (init fresh0 db_empty)) \<and>
   length (pairs_of (snd (init fresh1 (snd (init fresh0 db_empty)))) ''.'') \<le> 1 \<and>
   map cp_id (certs (snd (init fresh0 db_empty))) = [''0000-a0'']"
proof -
  have h1: "getCert db_empty ''.'' = None" by code_simp
  have h2: "fst (init fresh0 db_empty) = Inr ()" by code_simp
  have h3: "getCert db_root ''.'' \<noteq> None" by code_simp
  from init_idempotent [of db_root fresh1 fresh1 fresh1] h3
  have 1: "init fresh1 db_root = (Inr (), db_root)" by blast
  from init_idempotent [of db_empty fresh1 fresh0 fresh1] h2
  have 2: "init fresh1 (snd (init fresh0 db_empty)) = (Inr (), snd (init fresh0 db_empty))" by blast
  from init_idempotent [of db_empty fresh1 fresh0 fresh1] h1
  have 3: "length (pairs_of (snd (init fresh1 (snd (init fresh0 db_empty)))) ''.'') \<le> 1" by blast
  from init_idempotent [of db_empty fresh0 fresh0 fresh1] h1 h2
  obtain pair where "certs (snd (init fresh0 db_empty)) = certs db_empty @ [pair]"
    "cp_id pair = randomUUID fresh0"
    by blast
  then have 4: "map cp_id (certs (snd (init fresh0 db_empty))) = [''0000-a0'']"
    by (simp add: db_empty_def fresh0_def)
  from h1 h2 h3 1 2 3 4 show ?thesis by simp
qed







section \<open>The wildcard lookup\<close>

text \<open>\<^verbatim>\<open>pushRecord\<close> stores the name as \<^verbatim>\<open>LOWER\<close> gives it, with the time of the call.\<close>

lemma pushRecord_row:
  "pushRecord rt fr st name type ttl val = (Inr row, st') \<Longrightarrow>
   r_name row = LOWER rt name \<and> r_timestamp row = now fr \<and> records st' = records st @ [row]"
  by (auto simp: pushRecord_def Let_def split: if_splits sum.splits)

text \<open>On ASCII text the matcher goes byte by byte.\<close>

lemma is_ascii_lower_char: "is_ascii (lower_char c) = is_ascii c"
  by (simp add: lower_char_def is_ascii_def)

lemma NextChar_ascii: "\<forall>c\<in>set s. is_ascii c \<Longrightarrow> NextChar (x # s) = s"
  by (cases s) (simp_all add: NextChar_def is_ascii_def continuation_def)

lemma like_match_ascii: "\<forall>c\<in>set s. is_ascii c \<Longrightarrow> like_match ts s = match_bytes ts s"
  by (induction ts s rule: match_bytes.induct) (simp_all add: NextChar_ascii)

lemma like_tokens_plain:
  "\<forall>c\<in>set p. c \<noteq> CHR ''_'' \<and> c \<noteq> CHR 0x5C \<Longrightarrow>
   like_tokens p = Some (map (\<lambda>c. if c = CHR ''%'' then AnyString else Literal c) p)"
  by (induction p) auto

lemma like_tokens_replace:
  assumes "\<forall>c\<in>set p. c \<noteq> CHR ''%'' \<and> c \<noteq> CHR ''_'' \<and> c \<noteq> CHR 0x5C"
  shows "like_tokens (sql_replace p (CHR ''*'') (CHR ''%'')) = Some (map star_token p)"
proof -
  have "\<forall>c\<in>set (sql_replace p (CHR ''*'') (CHR ''%'')). c \<noteq> CHR ''_'' \<and> c \<noteq> CHR 0x5C"
    using assms by (auto simp: sql_replace_def)
  from like_tokens_plain [OF this] assms show ?thesis
    by (auto simp: sql_replace_def star_token_def)
qed

lemma match_bytes_label: "match_bytes (map star_token p) q = label_matches p q"
  by (induction p q rule: label_matches.induct) (auto simp: star_token_def)

lemma match_bytes_append:
  "match_bytes (ts1 @ ts2) s \<longleftrightarrow> (\<exists>u v. s = u @ v \<and> match_bytes ts1 u \<and> match_bytes ts2 v)"
proof (induction ts1 s rule: match_bytes.induct)
  case (1 s)
  then show ?case by simp
next
  case (2 c p)
  then show ?case by simp
next
  case (3 c p x s)
  show ?case
  proof
    assume "match_bytes ((Literal c # p) @ ts2) (x # s)"
    with 3 obtain u v where "c = x" "s = u @ v" "match_bytes p u" "match_bytes ts2 v"
      by auto
    then have "x # s = (x # u) @ v \<and> match_bytes (Literal c # p) (x # u) \<and> match_bytes ts2 v"
      by simp
    then show "\<exists>u v. x # s = u @ v \<and> match_bytes (Literal c # p) u \<and> match_bytes ts2 v"
      by blast
  next
    assume "\<exists>u v. x # s = u @ v \<and> match_bytes (Literal c # p) u \<and> match_bytes ts2 v"
    then obtain u v where uv: "x # s = u @ v" "match_bytes (Literal c # p) u" "match_bytes ts2 v"
      by blast
    from uv(2) obtain u' where u: "u = c # u'" "match_bytes p u'"
      by (cases u) auto
    with uv(1) have "c = x" "s = u' @ v" by auto
    with u(2) uv(3) 3 show "match_bytes ((Literal c # p) @ ts2) (x # s)"
      by auto
  qed
next
  case (4 p)
  then show ?case by simp
next
  case (5 p x s)
  show ?case
  proof
    assume "match_bytes ((AnyChar # p) @ ts2) (x # s)"
    with 5 obtain u v where "s = u @ v" "match_bytes p u" "match_bytes ts2 v"
      by auto
    then have "x # s = (x # u) @ v \<and> match_bytes (AnyChar # p) (x # u) \<and> match_bytes ts2 v"
      by simp
    then show "\<exists>u v. x # s = u @ v \<and> match_bytes (AnyChar # p) u \<and> match_bytes ts2 v"
      by blast
  next
    assume "\<exists>u v. x # s = u @ v \<and> match_bytes (AnyChar # p) u \<and> match_bytes ts2 v"
    then obtain u v where uv: "x # s = u @ v" "match_bytes (AnyChar # p) u" "match_bytes ts2 v"
      by blast
    from uv(2) obtain y u' where u: "u = y # u'" "match_bytes p u'"
      by (cases u) auto
    with uv(1) have "s = u' @ v" by auto
    with u(2) uv(3) 5 show "match_bytes ((AnyChar # p) @ ts2) (x # s)"
      by auto
  qed
next
  case (6 p)
  then show ?case by simp
next
  case (7 p x s)
  show ?case
  proof
    assume "match_bytes ((AnyString # p) @ ts2) (x # s)"
    then consider "match_bytes (p @ ts2) (x # s)" | "match_bytes ((AnyString # p) @ ts2) s"
      by auto
    then show "\<exists>u v. x # s = u @ v \<and> match_bytes (AnyString # p) u \<and> match_bytes ts2 v"
    proof cases
      case 1
      with 7(1) obtain u v where uv: "x # s = u @ v" "match_bytes p u" "match_bytes ts2 v" by blast
      have "match_bytes (AnyString # p) u"
        using uv(2) by (cases u) auto
      with uv show ?thesis by blast
    next
      case 2
      with 7(2) obtain u v where uv: "s = u @ v" "match_bytes (AnyString # p) u" "match_bytes ts2 v" by blast
      then have "x # s = (x # u) @ v" "match_bytes (AnyString # p) (x # u)" by auto
      with uv(3) show ?thesis by blast
    qed
  next
    assume "\<exists>u v. x # s = u @ v \<and> match_bytes (AnyString # p) u \<and> match_bytes ts2 v"
    then obtain u v where uv: "x # s = u @ v" "match_bytes (AnyString # p) u" "match_bytes ts2 v" by blast
    show "match_bytes ((AnyString # p) @ ts2) (x # s)"
    proof (cases u)
      case Nil
      with uv have "match_bytes p []" "v = x # s" by auto
      with uv(3) 7(1) have "match_bytes (p @ ts2) (x # s)" by (metis append_Nil)
      then show ?thesis by simp
    next
      case (Cons y u')
      with uv have xy: "y = x" "s = u' @ v" by auto
      from uv(2) Cons xy consider "match_bytes p (x # u')" | "match_bytes (AnyString # p) u'" by auto
      then show ?thesis
      proof cases
        case 1
        with uv(3) xy 7(1) have "match_bytes (p @ ts2) (x # s)" by (metis append_Cons)
        then show ?thesis by simp
      next
        case 2
        with uv(3) xy 7(2) have "match_bytes ((AnyString # p) @ ts2) s" by blast
        then show ?thesis by simp
      qed
    qed
  qed
qed

lemma match_bytes_count:
  "match_bytes ts s \<Longrightarrow> count_list ts (Literal d) \<le> count_list s d"
  by (induction ts s rule: match_bytes.induct) (auto split: if_splits)

lemma count_star_token:
  "d \<noteq> CHR ''*'' \<Longrightarrow> count_list (map star_token p) (Literal d) = count_list p d"
  by (induction p) (auto simp: star_token_def)

lemma fields_nonempty: "fields d s \<noteq> []"
  by (induction s) auto

lemma length_fields: "length (fields d s) = count_list s d + 1"
proof (induction s)
  case Nil
  then show ?case by simp
next
  case (Cons c s)
  then show ?case using fields_nonempty [of d s] by (cases "fields d s") auto
qed

lemma fields_free: "d \<notin> set s \<Longrightarrow> fields d s = [s]"
  by (induction s) auto

lemma fields_split: "d \<notin> set u \<Longrightarrow> fields d (u @ d # v) = u # fields d v"
  by (induction u) auto

lemma count_free: "count_list s d = 0 \<longleftrightarrow> d \<notin> set s"
  by (induction s) auto

lemma split_unique:
  "d \<notin> set a \<Longrightarrow> d \<notin> set x \<Longrightarrow> a @ d # b = x @ d # y \<Longrightarrow> a = x \<and> b = y"
proof (induction a arbitrary: x)
  case Nil
  then show ?case by (cases x) auto
next
  case (Cons c a)
  then show ?case by (cases x) auto
qed

lemma lower_char_dot: "lower_char c = CHR ''.'' \<longleftrightarrow> c = CHR ''.''"
  by (simp add: lower_char_def)

lemma fields_lower_ascii: "fields (CHR ''.'') (lower_ascii s) = map lower_ascii (fields (CHR ''.'') s)"
proof (induction s)
  case Nil
  then show ?case by (simp add: lower_ascii_def)
next
  case (Cons c s)
  have ne: "fields (CHR ''.'') s \<noteq> []" by (rule fields_nonempty)
  show ?case
  proof (cases "c = CHR ''.''")
    case True
    with Cons show ?thesis by (simp add: lower_ascii_def lower_char_dot)
  next
    case False
    then have "lower_char c \<noteq> CHR ''.''" by (simp add: lower_char_dot)
    with False Cons ne show ?thesis
      by (simp add: lower_ascii_def hd_map map_tl)
  qed
qed

lemma count_lower_ascii: "count_list (lower_ascii s) (CHR ''.'') = count_list s (CHR ''.'')"
  by (induction s) (auto simp: lower_ascii_def lower_char_dot)

lemma match_bytes_fields:
  assumes "count_list p (CHR ''.'') = count_list q (CHR ''.'')"
  shows "match_bytes (map star_token p) q \<longleftrightarrow>
         list_all2 label_matches (fields (CHR ''.'') p) (fields (CHR ''.'') q)"
  using assms
proof (induction "length p" arbitrary: p q rule: less_induct)
  case less
  show ?case
  proof (cases "CHR ''.'' \<in> set p")
    case False
    with less.prems have "CHR ''.'' \<notin> set q"
      by (metis count_free)
    with False show ?thesis
      by (simp add: fields_free match_bytes_label)
  next
    case True
    then obtain u v where p: "p = u @ CHR ''.'' # v" "CHR ''.'' \<notin> set u"
      by (meson split_list_first)
    then have cu: "count_list u (CHR ''.'') = 0"
      by (simp add: count_free)
    from p cu less.prems have cq: "count_list q (CHR ''.'') = count_list v (CHR ''.'') + 1"
      by simp
    then have "CHR ''.'' \<in> set q"
      by (metis count_free add_is_0 zero_neq_one)
    then obtain a b where q: "q = a @ CHR ''.'' # b" "CHR ''.'' \<notin> set a"
      by (meson split_list_first)
    then have ca: "count_list a (CHR ''.'') = 0"
      by (simp add: count_free)
    from q ca cq have cb: "count_list v (CHR ''.'') = count_list b (CHR ''.'')"
      by simp
    have len: "length v < length p"
      using p by simp
    have IH: "match_bytes (map star_token v) b \<longleftrightarrow>
              list_all2 label_matches (fields (CHR ''.'') v) (fields (CHR ''.'') b)"
      using less.hyps [OF len cb] .
    have toks: "map star_token p = map star_token u @ Literal (CHR ''.'') # map star_token v"
      using p by (simp add: star_token_def)
    have "match_bytes (map star_token p) q \<longleftrightarrow>
          match_bytes (map star_token u) a \<and> match_bytes (map star_token v) b"
    proof
      assume "match_bytes (map star_token p) q"
      then obtain x y where xy: "q = x @ y" "match_bytes (map star_token u) x"
        "match_bytes (Literal (CHR ''.'') # map star_token v) y"
        unfolding toks match_bytes_append by blast
      from xy(3) obtain y' where y: "y = CHR ''.'' # y'" "match_bytes (map star_token v) y'"
        by (cases y) auto
      from match_bytes_count [OF y(2), of "CHR ''.''"]
      have "count_list v (CHR ''.'') \<le> count_list y' (CHR ''.'')"
        by (simp add: count_star_token)
      moreover from xy(1) y(1) cq
      have "count_list x (CHR ''.'') + count_list y' (CHR ''.'') = count_list v (CHR ''.'')"
        by simp
      ultimately have "count_list x (CHR ''.'') = 0"
        by linarith
      then have nx: "CHR ''.'' \<notin> set x"
        by (simp add: count_free)
      have "a @ CHR ''.'' # b = x @ CHR ''.'' # y'"
        using xy(1) y(1) q(1) by simp
      with q(2) nx have "a = x \<and> b = y'"
        by (rule split_unique)
      with xy(2) y(2) show "match_bytes (map star_token u) a \<and> match_bytes (map star_token v) b"
        by simp
    next
      assume "match_bytes (map star_token u) a \<and> match_bytes (map star_token v) b"
      then have "match_bytes (map star_token u) a"
        "match_bytes (Literal (CHR ''.'') # map star_token v) (CHR ''.'' # b)"
        by simp_all
      with q(1) show "match_bytes (map star_token p) q"
        unfolding toks match_bytes_append by blast
    qed
    with IH p q show ?thesis
      by (simp add: fields_split match_bytes_label)
  qed
qed

lemma count_eq_length_fields:
  "count_list p d = count_list q d \<longleftrightarrow> length (fields d p) = length (fields d q)"
  by (simp add: length_fields)

lemma label_count_eq:
  "sql_eq (array_length (string_to_array p d)) (array_length (string_to_array q d)) \<longleftrightarrow>
   p \<noteq> [] \<and> q \<noteq> [] \<and> length (fields d p) = length (fields d q)"
  by (auto simp: sql_eq_def array_length_def string_to_array_def fields_nonempty)

lemma getRecords_where_plain:
  assumes "\<forall>c\<in>set (r_name row). c \<noteq> CHR ''%'' \<and> c \<noteq> CHR ''_'' \<and> c \<noteq> CHR 0x5C"
    and ascii: "\<forall>c\<in>set name. is_ascii c"
    and lower: "LOWER rt name = lower_ascii name"
  shows "getRecords_where rt name row =
     Inr (name \<noteq> [] \<and>
          list_all2 label_matches (string_to_array (r_name row) (CHR ''.''))
             (map lower_ascii (string_to_array name (CHR ''.''))))"
proof -
  let ?p = "r_name row"
  have "\<forall>c\<in>set (lower_ascii name). is_ascii c"
    using ascii by (simp add: lower_ascii_def is_ascii_lower_char)
  then have like: "sql_like rt (lower_ascii name) (sql_replace ?p (CHR ''*'') (CHR ''%''))
      = Inr (match_bytes (map star_token ?p) (lower_ascii name))"
    by (simp add: sql_like_def like_tokens_replace [OF assms(1)] like_match_ascii)
  have "(match_bytes (map star_token ?p) (lower_ascii name) \<and>
         ?p \<noteq> [] \<and> name \<noteq> [] \<and>
         length (fields (CHR ''.'') ?p) = length (fields (CHR ''.'') name))
      = (name \<noteq> [] \<and>
          list_all2 label_matches (string_to_array ?p (CHR ''.''))
             (map lower_ascii (string_to_array name (CHR ''.''))))" (is "?L = ?R")
  proof
    assume l: ?L
    then have "count_list ?p (CHR ''.'') = count_list (lower_ascii name) (CHR ''.'')"
      by (simp add: count_lower_ascii count_eq_length_fields)
    from match_bytes_fields [OF this] l show ?R
      by (simp add: string_to_array_def fields_lower_ascii)
  next
    assume ?R
    then have n: "name \<noteq> []"
      and r: "list_all2 label_matches (string_to_array ?p (CHR ''.''))
             (map lower_ascii (string_to_array name (CHR ''.'')))"
      by simp_all
    have p: "?p \<noteq> []"
    proof
      assume "?p = []"
      with r n show False by (simp add: string_to_array_def fields_nonempty)
    qed
    with r n have all: "list_all2 label_matches (fields (CHR ''.'') ?p) (fields (CHR ''.'') (lower_ascii name))"
      by (simp add: string_to_array_def fields_lower_ascii)
    then have "length (fields (CHR ''.'') ?p) = length (fields (CHR ''.'') (lower_ascii name))"
      by (rule list_all2_lengthD)
    then have len: "length (fields (CHR ''.'') ?p) = length (fields (CHR ''.'') name)"
      by (simp add: fields_lower_ascii)
    then have "count_list ?p (CHR ''.'') = count_list (lower_ascii name) (CHR ''.'')"
      by (simp add: count_lower_ascii count_eq_length_fields)
    from match_bytes_fields [OF this] all p n len show ?L
      by simp
  qed
  then show ?thesis
    by (simp add: getRecords_where_def lower like label_count_eq)
qed

lemma getRecords_set:
  "getRecords rt st name = Inr rows \<Longrightarrow>
   set rows = {row \<in> set (records st). getRecords_where rt name row = Inr True}"
  by (auto dest!: getRecords_rows)

lemma label_matches_star: "label_matches ''*'' q"
  by (induction q) simp_all

lemma label_matches_plain: "CHR ''*'' \<notin> set p \<Longrightarrow> label_matches p q \<longleftrightarrow> p = q"
  by (induction p q rule: label_matches.induct) auto

text \<open>
  Claim C3, as amended. Take a stored record whose name has none of the characters
  \<^verbatim>\<open>%\<close>, \<^verbatim>\<open>_\<close> and backslash, and a query name of ASCII characters that the database
  lower-cases letter by letter (\<^verbatim>\<open>A\<close> to \<^verbatim>\<open>Z\<close> to \<^verbatim>\<open>a\<close> to \<^verbatim>\<open>z\<close>, as every locale but the
  Turkic ones does), for which \<^verbatim>\<open>getRecords\<close> returns. The record is among the rows exactly
  when the query name is not empty, the two names have the same number of labels, and
  each label of the stored name matches the label of the lower-cased query name at the
  same position, where \<^verbatim>\<open>*\<close> stands for any run of characters of that one label and every
  other character for itself. So \<^verbatim>\<open>*\<close> never reaches over a dot; a label that is \<^verbatim>\<open>*\<close>
  matches every one label; a label without \<^verbatim>\<open>*\<close> matches only itself, so it has to equal
  the lower-cased label of the query.
\<close>

theorem getRecords_matches_label_by_label:
  assumes "getRecords rt st name = Inr rows"
    and "row \<in> set (records st)"
    and "\<forall>c\<in>set (r_name row). c \<noteq> CHR ''%'' \<and> c \<noteq> CHR ''_'' \<and> c \<noteq> CHR 0x5C"
    and "\<forall>c\<in>set name. is_ascii c"
    and "LOWER rt name = lower_ascii name"
  shows "(row \<in> set rows \<longleftrightarrow>
            name \<noteq> [] \<and>
            length (string_to_array (r_name row) (CHR ''.'')) = length (string_to_array name (CHR ''.'')) \<and>
            (\<forall>i<length (string_to_array name (CHR ''.'')).
               label_matches (string_to_array (r_name row) (CHR ''.'') ! i)
                             (lower_ascii (string_to_array name (CHR ''.'') ! i)))) \<and>
         (\<forall>q. label_matches ''*'' q) \<and>
         (\<forall>p q. CHR ''*'' \<notin> set p \<longrightarrow> (label_matches p q \<longleftrightarrow> p = q))"
proof -
  have "row \<in> set rows \<longleftrightarrow> getRecords_where rt name row = Inr True"
    using getRecords_set [OF assms(1)] assms(2) by simp
  also have "\<dots> \<longleftrightarrow> name \<noteq> [] \<and>
          list_all2 label_matches (string_to_array (r_name row) (CHR ''.''))
             (map lower_ascii (string_to_array name (CHR ''.'')))"
    by (simp add: getRecords_where_plain [OF assms(3) assms(4) assms(5)])
  also have "\<dots> \<longleftrightarrow> name \<noteq> [] \<and>
            length (string_to_array (r_name row) (CHR ''.'')) = length (string_to_array name (CHR ''.'')) \<and>
            (\<forall>i<length (string_to_array name (CHR ''.'')).
               label_matches (string_to_array (r_name row) (CHR ''.'') ! i)
                             (lower_ascii (string_to_array name (CHR ''.'') ! i)))"
    by (auto simp: list_all2_conv_all_nth)
  finally show ?thesis
    using label_matches_star label_matches_plain by blast
qed

text \<open>
  The claim as the specification states it fails for a \<^verbatim>\<open>*\<close> inside a label: the record
  \<^verbatim>\<open>a*.com\<close> is returned for \<^verbatim>\<open>abc.com\<close>, whose first label is not equal to \<^verbatim>\<open>a*\<close>, which
  is not the label \<^verbatim>\<open>*\<close>. (Nor does a label with a \<^verbatim>\<open>*\<close> inside match every label: the
  record is not returned for \<^verbatim>\<open>xyz.com\<close>.)
\<close>

theorem getRecords_inner_star_counterexample:
  "getRecords rt_sample (db_sample [] [rec_glob]) ''abc.com'' = Inr [rec_glob] \<and>
   \<not> labels_agree_spec rt_sample (r_name rec_glob) ''abc.com'' \<and>
   getRecords rt_sample (db_sample [] [rec_glob]) ''xyz.com'' = Inr []"
  by code_simp

theorem getRecords_matches_label_by_label_witness:
  "getRecords rt_sample (db_sample [] [rec_a, rec_star, rec_glob]) ''X.Example.COM'' = Inr [rec_star] \<and>
   rec_star \<in> set (records (db_sample [] [rec_a, rec_star, rec_glob])) \<and>
   LOWER rt_sample ''X.Example.COM'' = lower_ascii ''X.Example.COM'' \<and>
   label_matches ''*'' ''x'' \<and> label_matches ''example'' ''example'' \<and> label_matches ''com'' ''com'' \<and>
   getRecords rt_sample (db_sample [] [rec_a, rec_star, rec_glob]) ''x.y.example.com'' = Inr [] \<and>
   length (string_to_array (r_name rec_star) (CHR ''.'')) \<noteq> length (string_to_array ''x.y.example.com'' (CHR ''.''))"
proof -
  let ?st = "db_sample [] [rec_a, rec_star, rec_glob]"
  have g1: "getRecords rt_sample ?st ''X.Example.COM'' = Inr [rec_star]" by code_simp
  have g2: "getRecords rt_sample ?st ''x.y.example.com'' = Inr []" by code_simp
  have m: "rec_star \<in> set (records ?st)" by (simp add: db_sample_def)
  have plain: "\<forall>c\<in>set (r_name rec_star). c \<noteq> CHR ''%'' \<and> c \<noteq> CHR ''_'' \<and> c \<noteq> CHR 0x5C"
    by (simp add: rec_star_def)
  have a1: "\<forall>c\<in>set ''X.Example.COM''. is_ascii c" by (simp add: is_ascii_def)
  have a2: "\<forall>c\<in>set ''x.y.example.com''. is_ascii c" by (simp add: is_ascii_def)
  have l: "LOWER rt_sample name = lower_ascii name" for name by (simp add: rt_sample_def)
  have arr: "string_to_array (r_name rec_star) (CHR ''.'') = [''*'', ''example'', ''com'']"
    "string_to_array ''X.Example.COM'' (CHR ''.'') = [''X'', ''Example'', ''COM'']"
    "string_to_array ''x.y.example.com'' (CHR ''.'') = [''x'', ''y'', ''example'', ''com'']"
    by code_simp+
  have low: "lower_ascii ''X'' = ''x''" "lower_ascii ''Example'' = ''example''" "lower_ascii ''COM'' = ''com''"
    by code_simp+
  from getRecords_matches_label_by_label [OF g1 m plain a1 l]
  have "\<forall>i<3. label_matches ([''*'', ''example'', ''com''] ! i) (lower_ascii ([''X'', ''Example'', ''COM''] ! i))"
    by (simp add: arr)
  then have "label_matches ''*'' ''x''" "label_matches ''example'' ''example''" "label_matches ''com'' ''com''"
    using low by (auto simp: numeral_3_eq_3 less_Suc_eq)
  moreover from getRecords_matches_label_by_label [OF g2 m plain a2 l]
  have "length (string_to_array (r_name rec_star) (CHR ''.'')) \<noteq> length (string_to_array ''x.y.example.com'' (CHR ''.''))"
    by (simp add: arr)
  ultimately show ?thesis using g1 g2 m l by simp
qed

text \<open>
  Names with an underscore are outside the statement above: the underscore of a stored
  name is not escaped in the \<^verbatim>\<open>LIKE\<close> pattern and stands for any one character. So are
  names that end in a lone backslash: such a record is never returned, and the query
  fails when the matcher raises on it.
\<close>

lemma getRecords_where_trailing_backslash:
  "like_tokens (sql_replace (r_name row) (CHR ''*'') (CHR ''%'')) = None \<Longrightarrow>
   getRecords_where rt name row =
     (if LIKE_raises rt (LOWER rt name) (sql_replace (r_name row) (CHR ''*'') (CHR ''%''))
      then Inl InvalidEscapeSequence else Inr False)"
  by (simp add: getRecords_where_def sql_like_def)

lemma getRecords_underscore_example:
  "getRecords rt_sample (db_sample [] [rec_dmarc]) ''xdmarc.example.com'' = Inr [rec_dmarc] \<and>
   \<not> labels_agree_spec rt_sample (r_name rec_dmarc) ''xdmarc.example.com''"
  by code_simp

end
